theory Spec2Isabelle
  imports Complex_Main "HOL-Library.Sublist"
begin

section \<open>The op model (core/compiler/ast.ts)\<close>

text \<open>
  An op is a tagged union on \<open>kind\<close>; every op carries the \<open>blockId\<close> of the block it
  was compiled from. \<open>steps\<close> and \<open>ms\<close> are integers; \<open>times\<close> may be fractional, so it is a
  rational (the runtime floors it). The non-finite numbers of JavaScript (NaN, Infinity)
  are outside this model.
\<close>

datatype TurnDirection = Left | Right

datatype Op =
    Start (blockId: string)
  | Move (steps: int) (blockId: string)
  | Turn (direction: TurnDirection) (blockId: string)
  | Repeat (times: rat) (body: "Op list") (blockId: string)
  | Wait (ms: int) (blockId: string)

record Program =
  ops :: "Op list"

definition isStart :: "Op \<Rightarrow> bool" where
  "isStart op = (case op of Start _ \<Rightarrow> True | _ \<Rightarrow> False)"

definition isRepeat :: "Op \<Rightarrow> bool" where
  "isRepeat op = (case op of Repeat _ _ _ \<Rightarrow> True | _ \<Rightarrow> False)"

definition isWait :: "Op \<Rightarrow> bool" where
  "isWait op = (case op of Wait _ _ \<Rightarrow> True | _ \<Rightarrow> False)"


section \<open>The validator (core/compiler/validate.ts)\<close>

definition MAX_OPS :: nat where
  "MAX_OPS = 200"

text \<open>
  \<open>countOps\<close> is a loop over the ops with the running \<open>count\<close>; a repeat adds the count of
  its body. \<open>countLoop count ops\<close> is the value of \<open>count\<close> after the loop has gone through
  \<open>ops\<close>, and \<open>countOps ops\<close> starts it at 0.
\<close>

fun countLoop :: "nat \<Rightarrow> Op list \<Rightarrow> nat" where
  "countLoop count [] = count"
| "countLoop count (Repeat t b i # rest) = countLoop (count + 1 + countLoop 0 b) rest"
| "countLoop count (op # rest) = countLoop (count + 1) rest"

definition countOps :: "Op list \<Rightarrow> nat" where
  "countOps xs = countLoop 0 xs"

text \<open>
  The three errors of \<open>validateProgram\<close>, in the order the checks are made. Their messages
  are "El programa esta vacio.", "El programa debe empezar con start." and
  "Programa demasiado largo (maximo 200 ops)." (with the accents of the source).
\<close>

datatype ValidationError = EmptyProgram | MustStartWithStart | ProgramTooLong

definition validateProgram :: "Program \<Rightarrow> ValidationError + unit" where
  "validateProgram program =
     (case ops program of
        [] \<Rightarrow> Inl EmptyProgram
      | first # _ \<Rightarrow>
          if \<not> isStart first then Inl MustStartWithStart
          else if countOps (ops program) > MAX_OPS then Inl ProgramTooLong
          else Inr ())"

text \<open>
  The size of a program in the words of the specification: the number of op nodes of the
  tree, every op inside every repeat body counted, recursively.
\<close>

fun opNodes :: "Op \<Rightarrow> nat" where
  "opNodes (Repeat t b i) = 1 + sum_list (map opNodes b)"
| "opNodes op = 1"

definition totalOpCount :: "Op list \<Rightarrow> nat" where
  "totalOpCount xs = sum_list (map opNodes xs)"



section \<open>The runtime (core/runtime/runtime.ts)\<close>

text \<open>
  A thrown value: \<open>new Error(message)\<close>.
\<close>

datatype JsError = Error string

text \<open>
  What a call \<open>adapter.applyOp(op, state)\<close> does. The adapter returns a state or a promise
  of one (\<open>Returned\<close>: the runtime awaits it either way), throws before returning
  (\<open>Threw\<close>), or returns a promise that is rejected (\<open>Rejected\<close>). An adapter may change
  the state object in place before it raises, as the maze adapter does, so the two
  failing cases carry the content of the state object at that moment.
\<close>

datatype 's Applied = Returned 's | Threw JsError 's | Rejected JsError 's

record 's RuntimeAdapter =
  applyOp :: "Op \<Rightarrow> 's \<Rightarrow> 's Applied"
  reset :: "'s \<Rightarrow> 's"

text \<open>
  The trace of a run lists, in order, every call the runtime makes to a hook, to the
  adapter and to the window's timers, and every timer callback that runs. The hooks are
  optional in the source; the trace records the call.
\<close>

datatype Event =
    OnStep string
  | OnStatus string
  | OnDone
  | OnError JsError
  | ApplyOpCall Op
  | SetTimeout nat int
  | ClearTimeout nat
  | TimerFired nat
  | ResolveSleep nat

text \<open>
  The variables closed over by \<open>runProgram\<close>: \<open>running\<close>, \<open>stopped\<close>, \<open>state\<close> and
  \<open>pendingTimers\<close> (a timer is known by its id; its \<open>resolve\<close> is the event
  \<open>ResolveSleep id\<close>). \<open>nextTimerId\<close> is the id that \<open>window.setTimeout\<close> hands out next,
  \<open>ticks\<close> counts the suspensions (\<open>await\<close>) the walk has gone through.
\<close>

record 's Runtime =
  running :: bool
  stopped :: bool
  state :: 's
  pendingTimers :: "nat list"
  trace :: "Event list"
  nextTimerId :: nat
  ticks :: nat

text \<open>
  The host can call \<open>stop()\<close> only while the walk is suspended. A schedule tells, for the
  k-th suspension of the walk, whether the host calls \<open>stop()\<close> during it.
\<close>

type_synonym StopSchedule = "nat \<Rightarrow> bool"

definition emit :: "Event \<Rightarrow> 's Runtime \<Rightarrow> 's Runtime" where
  "emit e rt = rt\<lparr>trace := trace rt @ [e]\<rparr>"

definition clearTimers :: "'s Runtime \<Rightarrow> 's Runtime" where
  "clearTimers rt =
     (foldl (\<lambda>r timer. emit (ResolveSleep timer) (emit (ClearTimeout timer) r)) rt (pendingTimers rt))
       \<lparr>pendingTimers := []\<rparr>"

definition stop :: "'s Runtime \<Rightarrow> 's Runtime" where
  "stop rt =
     (if \<not> running rt then rt
      else emit (OnStatus ''Detenido.'') (clearTimers (rt\<lparr>stopped := True, running := False\<rparr>)))"

definition isRunning :: "'s Runtime \<Rightarrow> bool" where
  "isRunning rt = running rt"

text \<open>
  One suspension of the walk at an \<open>await\<close>: the host calls \<open>stop()\<close> during it if the
  schedule says so.
\<close>

definition suspend :: "StopSchedule \<Rightarrow> 's Runtime \<Rightarrow> 's Runtime" where
  "suspend env rt =
     (let rt1 = rt\<lparr>ticks := ticks rt + 1\<rparr> in if env (ticks rt) then stop rt1 else rt1)"

text \<open>
  \<open>sleep(ms)\<close> sets a timeout and pushes it on \<open>pendingTimers\<close>. \<open>timerCallback\<close> is the
  function given to \<open>setTimeout\<close>: it removes the timer from the list (\<open>findIndex\<close> and
  \<open>splice\<close>) and resolves the promise. \<open>awaitSleep\<close> is \<open>await sleep(ms)\<close>: the walk is
  suspended; the callback runs unless the timeout was cleared meanwhile, which only
  \<open>clearTimers\<close> does, taking the timer off the list.
\<close>

definition sleep :: "int \<Rightarrow> 's Runtime \<Rightarrow> 's Runtime" where
  "sleep m rt =
     (emit (SetTimeout (nextTimerId rt) m) rt)
       \<lparr>pendingTimers := pendingTimers rt @ [nextTimerId rt], nextTimerId := nextTimerId rt + 1\<rparr>"

definition timerCallback :: "nat \<Rightarrow> 's Runtime \<Rightarrow> 's Runtime" where
  "timerCallback timer rt =
     emit (ResolveSleep timer)
       ((emit (TimerFired timer) rt)\<lparr>pendingTimers := remove1 timer (pendingTimers rt)\<rparr>)"

definition awaitSleep :: "StopSchedule \<Rightarrow> int \<Rightarrow> 's Runtime \<Rightarrow> 's Runtime" where
  "awaitSleep env m rt =
     (let timer = nextTimerId rt;
          rt1 = suspend env (sleep m rt)
      in if timer \<in> set (pendingTimers rt1) then timerCallback timer rt1 else rt1)"

text \<open>
  How one round of the loop over the ops ends: the loop goes on (\<open>Next\<close>), the function
  returns (\<open>Return\<close>), or an error leaves it (\<open>Throw\<close>). The promise of \<open>runOps\<close> is then
  fulfilled or rejected.
\<close>

datatype LoopExit = Next | Return | Throw JsError

datatype Completion = Fulfilled | Failed JsError

text \<open>
  The round of the loop for an op that is not a repeat: \<open>applyOp\<close> is called, awaited,
  its result assigned to \<open>state\<close>, and a wait op then sleeps. When \<open>applyOp\<close> raises,
  the assignment does not happen, and \<open>state\<close> refers to the object as the adapter left it.
\<close>

definition applyStep :: "'s RuntimeAdapter \<Rightarrow> StopSchedule \<Rightarrow> Op \<Rightarrow> 's Runtime \<Rightarrow> LoopExit \<times> 's Runtime" where
  "applyStep A env op rt =
     (case applyOp A op (state rt) of
        Threw e s \<Rightarrow> (Throw e, (emit (ApplyOpCall op) rt)\<lparr>state := s\<rparr>)
      | Rejected e s \<Rightarrow> (Throw e, suspend env ((emit (ApplyOpCall op) rt)\<lparr>state := s\<rparr>))
      | Returned s \<Rightarrow>
          let rt2 = (suspend env (emit (ApplyOpCall op) rt))\<lparr>state := s\<rparr>
          in (Next, if isWait op then awaitSleep env (max 0 (ms op)) rt2 else rt2))"

text \<open>
  \<open>runOps\<close> is the loop over the ops; \<open>runRepeat A env b n rt\<close> is the inner loop of a
  repeat with n iterations left (\<open>times - i\<close>). Each \<open>await\<close> is a suspension.
\<close>

fun runOps :: "'s RuntimeAdapter \<Rightarrow> StopSchedule \<Rightarrow> Op list \<Rightarrow> 's Runtime \<Rightarrow> Completion \<times> 's Runtime"
  and runRepeat :: "'s RuntimeAdapter \<Rightarrow> StopSchedule \<Rightarrow> Op list \<Rightarrow> nat \<Rightarrow> 's Runtime \<Rightarrow> LoopExit \<times> 's Runtime"
where
  "runOps A env [] rt = (Fulfilled, rt)"
| "runOps A env (op # rest) rt =
     (if stopped rt then (Fulfilled, rt)
      else
        (case (case op of
                 Repeat t b i \<Rightarrow> runRepeat A env b (nat (max 0 \<lfloor>t\<rfloor>)) (emit (OnStep i) rt)
               | _ \<Rightarrow> applyStep A env op (emit (OnStep (blockId op)) rt)) of
           (Throw e, rt2) \<Rightarrow> (Failed e, rt2)
         | (Return, rt2) \<Rightarrow> (Fulfilled, rt2)
         | (Next, rt2) \<Rightarrow> runOps A env rest rt2))"
| "runRepeat A env b 0 rt = (Next, rt)"
| "runRepeat A env b (Suc n) rt =
     (if stopped rt then (Return, rt)
      else
        (case runOps A env b rt of
           (Failed e, rt1) \<Rightarrow> (Throw e, suspend env rt1)
         | (Fulfilled, rt1) \<Rightarrow> runRepeat A env b n (suspend env rt1)))"

text \<open>
  \<open>runProgram\<close> sets up the variables, starts \<open>run()\<close> and hands back the controller
  (\<open>stop\<close> and \<open>isRunning\<close> above). \<open>run\<close> emits the first status and awaits
  \<open>runOps(program.ops)\<close>; \<open>finish\<close> is what \<open>run()\<close> does once that promise has settled:
  the rest of the \<open>try\<close> block, the \<open>catch\<close> and the \<open>finally\<close>. The value of
  \<open>runProgram\<close> here is the runtime's variables once \<open>run()\<close> has finished under the
  given schedule.
\<close>

definition initRuntime :: "'s RuntimeAdapter \<Rightarrow> 's \<Rightarrow> 's Runtime" where
  "initRuntime A initialState =
     \<lparr>running = True, stopped = False, state = reset A initialState, pendingTimers = [],
      trace = [], nextTimerId = 1, ticks = 0\<rparr>"

definition finish :: "StopSchedule \<Rightarrow> Completion \<times> 's Runtime \<Rightarrow> 's Runtime" where
  "finish env w =
     (case w of (r, rt1) \<Rightarrow>
        let rt2 = suspend env rt1;
            rt3 = (case r of
                     Fulfilled \<Rightarrow>
                       if \<not> stopped rt2 then emit (OnStatus ''Finalizado.'') (emit OnDone rt2) else rt2
                   | Failed e \<Rightarrow> emit (OnError e) rt2)
        in rt3\<lparr>running := False\<rparr>)"

definition run :: "'s RuntimeAdapter \<Rightarrow> StopSchedule \<Rightarrow> Program \<Rightarrow> 's Runtime \<Rightarrow> 's Runtime" where
  "run A env program rt =
     finish env (runOps A env (ops program) (emit (OnStatus ''Ejecutando...'') rt))"

definition runProgram :: "'s RuntimeAdapter \<Rightarrow> StopSchedule \<Rightarrow> Program \<Rightarrow> 's \<Rightarrow> 's Runtime" where
  "runProgram A env program initialState = run A env program (initRuntime A initialState)"


section \<open>The maze game (apps/maze/mazeApp.ts)\<close>

datatype Direction = N | E | S | W

datatype MazeStatus = status_idle | status_running | status_win | status_error

record Point =
  px :: int
  py :: int

record Player = Point +
  dir :: Direction

record MazeState =
  levelId :: int
  player :: Player
  status :: MazeStatus
  message :: "string option"

text \<open>
  \<open>MazeLevel\<close> and the array \<open>levels\<close> come from \<open>./levels\<close>, which is not among the
  sources. The record has the fields that \<open>mazeApp.ts\<close> reads: \<open>id\<close>, \<open>gridW\<close>, \<open>gridH\<close>,
  \<open>walls\<close>, \<open>goal\<close> and \<open>start\<close>. The array is a parameter of every function that reads
  it. It is not empty (the module reads \<open>level.id\<close> of \<open>getLevel(1)\<close> when the initial
  state is made), so it is given by its first level and the others.
\<close>

record MazeLevel =
  level_id :: int
  gridW :: int
  gridH :: int
  walls :: "Point list"
  goal :: Point
  start :: Player

datatype Levels = Levels MazeLevel "MazeLevel list"

fun levelList :: "Levels \<Rightarrow> MazeLevel list" where
  "levelList (Levels l0 ls) = l0 # ls"

definition DIR_ORDER :: "Direction list" where
  "DIR_ORDER = [N, E, S, W]"

fun DIR_DELTAS :: "Direction \<Rightarrow> Point" where
  "DIR_DELTAS N = \<lparr>px = 0, py = -1\<rparr>"
| "DIR_DELTAS E = \<lparr>px = 1, py = 0\<rparr>"
| "DIR_DELTAS S = \<lparr>px = 0, py = 1\<rparr>"
| "DIR_DELTAS W = \<lparr>px = -1, py = 0\<rparr>"

definition getLevel :: "Levels \<Rightarrow> int \<Rightarrow> MazeLevel" where
  "getLevel lv i =
     (case find (\<lambda>level. level_id level = i) (levelList lv) of
        Some level \<Rightarrow> level
      | None \<Rightarrow> hd (levelList lv))"

definition makeInitialState :: "Levels \<Rightarrow> int \<Rightarrow> MazeState" where
  "makeInitialState lv i =
     (let level = getLevel lv i
      in \<lparr>levelId = level_id level, player = start level, status = status_idle, message = None\<rparr>)"

text \<open>\<open>Array.indexOf\<close>: the first index of the value, or -1.\<close>

fun indexOf :: "'a list \<Rightarrow> 'a \<Rightarrow> int" where
  "indexOf [] v = -1"
| "indexOf (a # as) v =
     (if a = v then 0 else (let r = indexOf as v in if r < 0 then -1 else r + 1))"

definition turnLeft :: "Direction \<Rightarrow> Direction" where
  "turnLeft d = DIR_ORDER ! nat ((indexOf DIR_ORDER d + 3) mod int (length DIR_ORDER))"

definition turnRight :: "Direction \<Rightarrow> Direction" where
  "turnRight d = DIR_ORDER ! nat ((indexOf DIR_ORDER d + 1) mod int (length DIR_ORDER))"

definition isBlocked :: "MazeLevel \<Rightarrow> int \<Rightarrow> int \<Rightarrow> bool" where
  "isBlocked level x y = list_ex (\<lambda>wall. px wall = x \<and> py wall = y) (walls level)"

definition inBounds :: "MazeLevel \<Rightarrow> int \<Rightarrow> int \<Rightarrow> bool" where
  "inBounds level x y = (x \<ge> 0 \<and> y \<ge> 0 \<and> x < gridW level \<and> y < gridH level)"

text \<open>
  The two messages of the adapter start with an inverted exclamation mark, the
  character U+00A1.
\<close>

definition msgChoque :: string where
  "msgChoque = CHR 0xA1 # ''Choque!''"

definition msgLlegaste :: string where
  "msgLlegaste = CHR 0xA1 # ''Llegaste!''"

text \<open>
  The loop of a move op, with n steps left. The state object is changed in place, so a
  throw leaves the status, the message and the position reached so far in it.
\<close>

fun moveLoop :: "MazeLevel \<Rightarrow> Point \<Rightarrow> int \<Rightarrow> nat \<Rightarrow> MazeState \<Rightarrow> MazeState Applied" where
  "moveLoop level delta sign 0 st = Returned st"
| "moveLoop level delta sign (Suc n) st =
     (let nextX = px (player st) + px delta * sign;
          nextY = py (player st) + py delta * sign
      in if \<not> inBounds level nextX nextY \<or> isBlocked level nextX nextY
         then Threw (Error ''CHOQUE'') (st\<lparr>status := status_error, message := Some msgChoque\<rparr>)
         else
           let st1 = st\<lparr>player := (player st)\<lparr>px := nextX, py := nextY\<rparr>\<rparr>
           in if px (player st1) = px (goal level) \<and> py (player st1) = py (goal level)
              then Threw (Error ''WIN'') (st1\<lparr>status := status_win, message := Some msgLlegaste\<rparr>)
              else moveLoop level delta sign n st1)"

definition mazeApplyOp :: "Levels \<Rightarrow> Op \<Rightarrow> MazeState \<Rightarrow> MazeState Applied" where
  "mazeApplyOp lv op st =
     (let level = getLevel lv (levelId st)
      in if status st = status_win \<or> status st = status_error then Returned st
         else
           (case op of
              Turn d _ \<Rightarrow>
                Returned (st\<lparr>player := (player st)
                   \<lparr>dir := (if d = Left then turnLeft (dir (player st)) else turnRight (dir (player st)))\<rparr>\<rparr>)
            | Move n _ \<Rightarrow>
                moveLoop level (DIR_DELTAS (dir (player st))) (if n \<ge> 0 then 1 else -1) (nat \<bar>n\<bar>) st
            | _ \<Rightarrow> Returned st))"

definition mazeReset :: "Levels \<Rightarrow> MazeState \<Rightarrow> MazeState" where
  "mazeReset lv st =
     (let next = makeInitialState lv (levelId st)
      in st\<lparr>levelId := levelId next, player := player next, status := status next,
            message := message next\<rparr>)"

definition adapter :: "Levels \<Rightarrow> MazeState RuntimeAdapter" where
  "adapter lv = \<lparr>applyOp = mazeApplyOp lv, reset = mazeReset lv\<rparr>"

text \<open>
  \<open>deserializeState\<close> takes a value of unknown shape. \<open>RawState\<close> is that value when it is
  an object. The code takes \<open>levelId\<close> without testing its type: the field is undefined
  or null (\<open>Absent\<close>, replaced by 1), a number, or some other value (\<open>NotNumber\<close>), which
  \<open>===\<close> finds equal to no level id, so that \<open>getLevel\<close> falls back to the first level.
  \<open>x\<close> and \<open>y\<close> are \<open>None\<close> when they are missing or not numbers (the code tests
  \<open>typeof\<close>), \<open>dir\<close> is \<open>None\<close> when it is missing or not a direction, and the message
  is a string or undefined. The status of the object is never read. \<open>serializeState\<close>
  builds the object from a state, every field present but for an undefined message.
\<close>

datatype RawLevelId = Absent | NotNumber | IsNumber int

record RawPlayer =
  raw_x :: "int option"
  raw_y :: "int option"
  raw_dir :: "Direction option"

record RawState =
  raw_levelId :: RawLevelId
  raw_player :: "RawPlayer option"
  raw_status :: "MazeStatus option"
  raw_message :: "string option"

definition serializeState :: "MazeState \<Rightarrow> RawState" where
  "serializeState st =
     \<lparr>raw_levelId = IsNumber (levelId st),
      raw_player = Some \<lparr>raw_x = Some (px (player st)), raw_y = Some (py (player st)),
                         raw_dir = Some (dir (player st))\<rparr>,
      raw_status = Some (status st),
      raw_message = message st\<rparr>"

definition restorePlayer :: "RawPlayer option \<Rightarrow> Player \<Rightarrow> Player" where
  "restorePlayer rp p =
     (case rp of
        None \<Rightarrow> p
      | Some r \<Rightarrow>
          (case (raw_x r, raw_y r) of
             (Some x, Some y) \<Rightarrow>
               let p1 = p\<lparr>px := x, py := y\<rparr>
               in (case raw_dir r of
                     Some d \<Rightarrow> if d \<in> set DIR_ORDER then p1\<lparr>dir := d\<rparr> else p1
                   | None \<Rightarrow> p1)
           | _ \<Rightarrow> p))"

definition deserializeState :: "Levels \<Rightarrow> RawState option \<Rightarrow> MazeState" where
  "deserializeState lv raw =
     (case raw of
        None \<Rightarrow> makeInitialState lv 1
      | Some r \<Rightarrow>
          let level = (case raw_levelId r of
                         Absent \<Rightarrow> getLevel lv 1
                       | IsNumber i \<Rightarrow> getLevel lv i
                       | NotNumber \<Rightarrow> hd (levelList lv));
              st = makeInitialState lv (level_id level);
              st1 = st\<lparr>player := restorePlayer (raw_player r) (player st)\<rparr>
          in st1\<lparr>status := status_idle, message := raw_message r\<rparr>)"


section \<open>Notions used to state the properties\<close>

text \<open>The state that a call of \<open>applyOp\<close> leaves, however the call ends.\<close>

fun appliedState :: "'s Applied \<Rightarrow> 's" where
  "appliedState (Returned s) = s"
| "appliedState (Threw e s) = s"
| "appliedState (Rejected e s) = s"

text \<open>
  The player stands on a legal cell: inside the grid of the state's level and not on a
  wall of it.
\<close>

definition legal :: "Levels \<Rightarrow> MazeState \<Rightarrow> bool" where
  "legal lv st =
     (let level = getLevel lv (levelId st)
      in inBounds level (px (player st)) (py (player st))
         \<and> \<not> isBlocked level (px (player st)) (py (player st)))"

text \<open>
  The states reached from \<open>makeInitialState(i)\<close> by calls of the maze adapter's \<open>applyOp\<close>
  that return normally.
\<close>

inductive reachable :: "Levels \<Rightarrow> int \<Rightarrow> MazeState \<Rightarrow> bool" for lv :: Levels and i :: int where
  initial: "reachable lv i (makeInitialState lv i)"
| step: "reachable lv i st \<Longrightarrow> mazeApplyOp lv op st = Returned st' \<Longrightarrow> reachable lv i st'"

text \<open>
  The walk events of a trace are the \<open>onStep\<close> calls and the \<open>applyOp\<close> calls, in order;
  \<open>callsOf\<close> lists the ops \<open>applyOp\<close> was called with.
\<close>

definition isWalkEvent :: "Event \<Rightarrow> bool" where
  "isWalkEvent e = (case e of OnStep _ \<Rightarrow> True | ApplyOpCall _ \<Rightarrow> True | _ \<Rightarrow> False)"

definition walkLog :: "Event list \<Rightarrow> Event list" where
  "walkLog tr = filter isWalkEvent tr"

fun callsOf :: "Event list \<Rightarrow> Op list" where
  "callsOf [] = []"
| "callsOf (ApplyOpCall op # es) = op # callsOf es"
| "callsOf (e # es) = callsOf es"

text \<open>
  The depth-first sequence of a list of ops, in the words of the specification: an op that
  is not a repeat is announced by \<open>onStep\<close> and then applied; a repeat is announced and
  followed by the sequence of its body, max(0, floor(times)) times over.
\<close>

fun unrollOp :: "Op \<Rightarrow> Event list" where
  "unrollOp (Repeat t b i) =
     OnStep i # concat (replicate (nat (max 0 \<lfloor>t\<rfloor>)) (concat (map unrollOp b)))"
| "unrollOp op = [OnStep (blockId op), ApplyOpCall op]"

definition unroll :: "Op list \<Rightarrow> Event list" where
  "unroll xs = concat (map unrollOp xs)"

text \<open>
  The error a call of \<open>applyOp\<close> raises, if any; the state after a sequence of calls; and
  whether every call of a sequence returns normally.
\<close>

fun raised :: "'s Applied \<Rightarrow> JsError option" where
  "raised (Returned s) = None"
| "raised (Threw e s) = Some e"
| "raised (Rejected e s) = Some e"

fun replay :: "'s RuntimeAdapter \<Rightarrow> 's \<Rightarrow> Op list \<Rightarrow> 's" where
  "replay A s [] = s"
| "replay A s (op # rest) = replay A (appliedState (applyOp A op s)) rest"

fun allReturned :: "'s RuntimeAdapter \<Rightarrow> 's \<Rightarrow> Op list \<Rightarrow> bool" where
  "allReturned A s [] = True"
| "allReturned A s (op # rest) =
     (raised (applyOp A op s) = None \<and> allReturned A (appliedState (applyOp A op s)) rest)"

text \<open>
  The events that \<open>stop()\<close> adds to the trace when the run is running, and the events of a
  trace that come after the first "Detenido." status.
\<close>

definition stopEvents :: "nat list \<Rightarrow> Event list" where
  "stopEvents timers =
     concat (map (\<lambda>timer. [ClearTimeout timer, ResolveSleep timer]) timers) @ [OnStatus ''Detenido.'']"

definition afterStop :: "Event list \<Rightarrow> Event list" where
  "afterStop tr = drop 1 (dropWhile (\<lambda>e. e \<noteq> OnStatus ''Detenido.'') tr)"

text \<open>
  The events that end a run: \<open>onDone\<close>, the status "Finalizado." and \<open>onError\<close>.
\<close>

definition isFinishEvent :: "Event \<Rightarrow> bool" where
  "isFinishEvent e =
     (case e of OnDone \<Rightarrow> True | OnError _ \<Rightarrow> True | OnStatus s \<Rightarrow> s = ''Finalizado.'' | _ \<Rightarrow> False)"

definition finishLog :: "Event list \<Rightarrow> Event list" where
  "finishLog tr = filter isFinishEvent tr"

text \<open>
  Two conditions on the runtime during the walk, for a run that started in the adapter
  state \<open>s0\<close>. \<open>sound\<close>: the state is the result of the calls made so far, all of which
  returned, and no finish event was emitted. \<open>failedAt\<close>: the same, but for the last
  call, which raised the error \<open>e\<close> and is the last walk event.
\<close>

definition sound :: "'s RuntimeAdapter \<Rightarrow> 's \<Rightarrow> 's Runtime \<Rightarrow> bool" where
  "sound A s0 rt =
     (state rt = replay A s0 (callsOf (trace rt)) \<and> allReturned A s0 (callsOf (trace rt))
      \<and> finishLog (trace rt) = [])"

definition failedAt :: "'s RuntimeAdapter \<Rightarrow> 's \<Rightarrow> JsError \<Rightarrow> 's Runtime \<Rightarrow> bool" where
  "failedAt A s0 e rt =
     (state rt = replay A s0 (callsOf (trace rt)) \<and> finishLog (trace rt) = []
      \<and> (\<exists>c op l. callsOf (trace rt) = c @ [op] \<and> allReturned A s0 c
            \<and> raised (applyOp A op (replay A s0 c)) = Some e
            \<and> walkLog (trace rt) = l @ [OnStep (blockId op), ApplyOpCall op]))"

text \<open>
  The bookkeeping of \<open>stop()\<close> during a run under the schedule \<open>env\<close>: the run is running
  until it is stopped, it is stopped exactly when the host has called \<open>stop()\<close> during
  one of the suspensions so far, which is when the status "Detenido." is in the trace,
  and no walk event comes after that status.
\<close>

definition stopInv :: "StopSchedule \<Rightarrow> 's Runtime \<Rightarrow> bool" where
  "stopInv env rt =
     (running rt = (\<not> stopped rt)
      \<and> stopped rt = (\<exists>k<ticks rt. env k)
      \<and> stopped rt = (OnStatus ''Detenido.'' \<in> set (trace rt))
      \<and> walkLog (afterStop (trace rt)) = [])"

text \<open>
  In a list of events, every call of \<open>applyOp\<close> comes directly after the \<open>onStep\<close> call
  for the block of its op.
\<close>

fun announced :: "Event list \<Rightarrow> bool" where
  "announced [] = True"
| "announced (OnStep i # ApplyOpCall op # es) = (i = blockId op \<and> announced es)"
| "announced (ApplyOpCall op # es) = False"
| "announced (e # es) = announced es"

text \<open>The runtime when \<open>run()\<close> reaches \<open>runOps(program.ops)\<close>.\<close>

definition startRuntime :: "'s RuntimeAdapter \<Rightarrow> 's \<Rightarrow> 's Runtime" where
  "startRuntime A init = emit (OnStatus ''Ejecutando...'') (initRuntime A init)"

text \<open>
  A 3 by 3 grid without walls, the goal at (1,1), the player starting at the given cell
  and facing north; and the program of the end-to-end scenario.
\<close>

definition grid3 :: "int \<Rightarrow> int \<Rightarrow> Levels" where
  "grid3 x y =
     Levels \<lparr>level_id = 1, gridW = 3, gridH = 3, walls = [], goal = \<lparr>px = 1, py = 1\<rparr>,
             start = \<lparr>px = x, py = y, dir = N\<rparr>\<rparr> []"

definition scenario :: Program where
  "scenario = \<lparr>ops = [Start ''s'', Move 1 ''m1'', Turn Right ''t'', Move 1 ''m2'']\<rparr>"

definition neverStop :: StopSchedule where
  "neverStop k = False"

text \<open>
  Three more programs, run on the 3 by 3 grid from (0,2): one that turns left in a repeat
  with a fractional count, one that waits and then moves, and one whose repeat body runs
  into the edge of the grid. \<open>stopAt n\<close> is the schedule in which the host calls \<open>stop()\<close>
  during suspension n, and \<open>sleeping\<close> is the runtime of the second program when its
  wait op starts to sleep.
\<close>

definition turnTwice :: Program where
  "turnTwice = \<lparr>ops = [Start ''s'', Repeat (5 / 2) [Turn Left ''t''] ''r'']\<rparr>"

definition waitThenMove :: Program where
  "waitThenMove = \<lparr>ops = [Start ''s'', Wait 1000 ''w'', Move 1 ''m'']\<rparr>"

definition repeatCrash :: Program where
  "repeatCrash = \<lparr>ops = [Start ''s'', Repeat 2 [Move 3 ''m''] ''r'']\<rparr>"

definition stopAt :: "nat \<Rightarrow> StopSchedule" where
  "stopAt n k = (k = n)"

definition sleeping :: "MazeState Runtime" where
  "sleeping =
     \<lparr>running = True, stopped = False,
      state = \<lparr>levelId = 1, player = \<lparr>px = 0, py = 2, dir = N\<rparr>, status = status_idle,
               message = None\<rparr>,
      pendingTimers = [],
      trace = [OnStatus ''Ejecutando...'', OnStep ''s'', ApplyOpCall (Start ''s''),
               OnStep ''w'', ApplyOpCall (Wait 1000 ''w'')],
      nextTimerId = 1, ticks = 2\<rparr>"


section \<open>Properties of the validator\<close>

lemma countLoop_total: "countLoop c xs = c + totalOpCount xs"
  by (induction c xs rule: countLoop.induct) (simp_all add: totalOpCount_def)

lemma countOps_total: "countOps xs = totalOpCount xs"
  by (simp add: countOps_def countLoop_total)

lemma totalOpCount_Cons: "totalOpCount (op # xs) = opNodes op + totalOpCount xs"
  by (simp add: totalOpCount_def)

lemma totalOpCount_replicate: "totalOpCount (replicate n op) = n * opNodes op"
  by (induction n) (simp_all add: totalOpCount_def)

text \<open>
  Claim C2. \<open>validateProgram\<close> returns normally exactly when the program has an op, its
  first op is a start op and the number of op nodes, those inside repeat bodies included,
  is at most 200. Otherwise it fails: with the empty-program error when there is no op,
  with the must-start error when the first op is not a start op, and with the too-long
  error when the count is above 200. A count of exactly 200 passes, and 201 fails with
  the too-long error.
\<close>

theorem validateProgram_iff:
  "(validateProgram P = Inr () \<longleftrightarrow>
      ops P \<noteq> [] \<and> isStart (hd (ops P)) \<and> totalOpCount (ops P) \<le> 200)
   \<and> (ops P = [] \<longrightarrow> validateProgram P = Inl EmptyProgram)
   \<and> (ops P \<noteq> [] \<and> \<not> isStart (hd (ops P)) \<longrightarrow> validateProgram P = Inl MustStartWithStart)
   \<and> (ops P \<noteq> [] \<and> isStart (hd (ops P)) \<and> totalOpCount (ops P) > 200 \<longrightarrow>
        validateProgram P = Inl ProgramTooLong)
   \<and> (ops P \<noteq> [] \<and> isStart (hd (ops P)) \<and> totalOpCount (ops P) = 200 \<longrightarrow>
        validateProgram P = Inr ())
   \<and> (ops P \<noteq> [] \<and> isStart (hd (ops P)) \<and> totalOpCount (ops P) = 201 \<longrightarrow>
        validateProgram P = Inl ProgramTooLong)"
  by (cases "ops P") (simp_all add: validateProgram_def countOps_total MAX_OPS_def)

theorem validateProgram_iff_witness:
  "validateProgram \<lparr>ops = Start ''s'' # replicate 199 (Move 1 ''m'')\<rparr> = Inr ()
   \<and> validateProgram \<lparr>ops = Start ''s'' # replicate 100 (Repeat 3 [Move 1 ''m''] ''r'')\<rparr>
       = Inl ProgramTooLong
   \<and> validateProgram \<lparr>ops = [Move 1 ''m'']\<rparr> = Inl MustStartWithStart
   \<and> validateProgram \<lparr>ops = []\<rparr> = Inl EmptyProgram"
  using validateProgram_iff [of "\<lparr>ops = Start ''s'' # replicate 199 (Move 1 ''m'')\<rparr>"]
        validateProgram_iff [of "\<lparr>ops = Start ''s'' # replicate 100 (Repeat 3 [Move 1 ''m''] ''r'')\<rparr>"]
        validateProgram_iff [of "\<lparr>ops = [Move 1 ''m'']\<rparr>"]
        validateProgram_iff [of "\<lparr>ops = []\<rparr>"]
  by (simp add: totalOpCount_Cons totalOpCount_replicate isStart_def)



section \<open>Lemmas about the runtime\<close>

lemma clear_fold:
  "foldl (\<lambda>r timer. emit (ResolveSleep timer) (emit (ClearTimeout timer) r)) rt ts
   = rt\<lparr>trace := trace rt @ concat (map (\<lambda>timer. [ClearTimeout timer, ResolveSleep timer]) ts)\<rparr>"
  by (induction ts arbitrary: rt) (simp_all add: emit_def)

lemma stop_eq:
  "stop rt =
     (if \<not> running rt then rt
      else rt\<lparr>running := False, stopped := True, pendingTimers := [],
              trace := trace rt @ stopEvents (pendingTimers rt)\<rparr>)"
  unfolding stop_def clearTimers_def clear_fold
  by (simp add: emit_def stopEvents_def)

lemma suspend_eq:
  "suspend env rt =
     (if env (ticks rt) \<and> running rt
      then rt\<lparr>running := False, stopped := True, pendingTimers := [],
              trace := trace rt @ stopEvents (pendingTimers rt), ticks := ticks rt + 1\<rparr>
      else rt\<lparr>ticks := ticks rt + 1\<rparr>)"
  by (simp add: suspend_def stop_eq Let_def)

lemma walkLog_append [simp]: "walkLog (xs @ ys) = walkLog xs @ walkLog ys"
  by (simp add: walkLog_def)

lemma callsOf_append [simp]: "callsOf (xs @ ys) = callsOf xs @ callsOf ys"
  by (induction xs rule: callsOf.induct) simp_all

lemma walkLog_stopEvents [simp]: "walkLog (stopEvents ts) = []"
  by (induction ts) (simp_all add: stopEvents_def walkLog_def isWalkEvent_def)

lemma callsOf_stopEvents [simp]: "callsOf (stopEvents ts) = []"
  by (induction ts) (simp_all add: stopEvents_def)

lemma walk_rule:
  assumes "\<And>rt op x rt2. I rt \<Longrightarrow> \<not> stopped rt \<Longrightarrow> \<not> isRepeat op \<Longrightarrow>
              applyStep A env op (emit (OnStep (blockId op)) rt) = (x, rt2) \<Longrightarrow>
              (case x of Throw e \<Rightarrow> F e rt2 | _ \<Rightarrow> I rt2)"
      and "\<And>rt i. I rt \<Longrightarrow> \<not> stopped rt \<Longrightarrow> I (emit (OnStep i) rt)"
      and "\<And>rt. I rt \<Longrightarrow> I (suspend env rt)"
      and "\<And>rt e. F e rt \<Longrightarrow> F e (suspend env rt)"
  shows "I rt \<Longrightarrow> (case runOps A env xs rt of (Failed e, rt') \<Rightarrow> F e rt' | (Fulfilled, rt') \<Rightarrow> I rt')"
    and "I rt \<Longrightarrow> (case runRepeat A env b n rt of (Throw e, rt') \<Rightarrow> F e rt' | (_, rt') \<Rightarrow> I rt')"
  using assms
proof (induction A env xs rt and A env b n rt rule: runOps_runRepeat.induct)
  case (1 A env rt)
  then show ?case by simp
next
  case (2 A env op rest rt)
  show ?case
  proof (cases "stopped rt")
    case True
    then show ?thesis using "2.prems"(1) by simp
  next
    case False
    obtain x rt2 where step: "(case op of
                 Repeat t b i \<Rightarrow> runRepeat A env b (nat (max 0 \<lfloor>t\<rfloor>)) (emit (OnStep i) rt)
               | _ \<Rightarrow> applyStep A env op (emit (OnStep (blockId op)) rt)) = (x, rt2)"
      by (cases "(case op of
                 Repeat t b i \<Rightarrow> runRepeat A env b (nat (max 0 \<lfloor>t\<rfloor>)) (emit (OnStep i) rt)
               | _ \<Rightarrow> applyStep A env op (emit (OnStep (blockId op)) rt))") auto
    have post: "(case x of Throw e \<Rightarrow> F e rt2 | _ \<Rightarrow> I rt2)"
    proof (cases "isRepeat op")
      case True
      then obtain t b i where Repeat: "op = Repeat t b i"
        by (cases op) (simp_all add: isRepeat_def)
      have "I (emit (OnStep i) rt)" using "2.prems" False by blast
      from "2.IH"(1)[OF False Repeat this "2.prems"(2-5)] step Repeat
      show ?thesis by (auto split: LoopExit.splits)
    next
      case nr: False
      then have "applyStep A env op (emit (OnStep (blockId op)) rt) = (x, rt2)"
        using step by (cases op) (simp_all add: isRepeat_def)
      with "2.prems"(1,2) False nr show ?thesis by blast
    qed
    show ?thesis
    proof (cases x)
      case Next
      with post have "I rt2" by simp
      from "2.IH"(2)[OF False step[symmetric] Next this "2.prems"(2-5)] step Next False
      show ?thesis by simp
    next
      case Return
      then show ?thesis using post step False by simp
    next
      case (Throw e)
      then show ?thesis using post step False by simp
    qed
  qed
next
  case (3 A env b rt)
  then show ?case by simp
next
  case (4 A env b n rt)
  show ?case
  proof (cases "stopped rt")
    case True
    then show ?thesis using "4.prems"(1) by simp
  next
    case False
    obtain r rt1 where body: "runOps A env b rt = (r, rt1)" by (cases "runOps A env b rt") auto
    from "4.IH"(1)[OF False "4.prems"] body
    have post: "(case r of Failed e \<Rightarrow> F e rt1 | Fulfilled \<Rightarrow> I rt1)" by simp
    show ?thesis
    proof (cases r)
      case Fulfilled
      with post have "I (suspend env rt1)" using "4.prems"(4) by simp
      from "4.IH"(2)[OF False body[symmetric] Fulfilled this "4.prems"(2-5)] body Fulfilled False
      show ?thesis by simp
    next
      case (Failed e)
      with post have "F e (suspend env rt1)" using "4.prems"(5) by simp
      then show ?thesis using body Failed False by simp
    qed
  qed
qed

lemma replay_snoc: "replay A s (c @ [op]) = appliedState (applyOp A op (replay A s c))"
  by (induction c arbitrary: s) simp_all

lemma allReturned_snoc:
  "allReturned A s (c @ [op]) = (allReturned A s c \<and> raised (applyOp A op (replay A s c)) = None)"
  by (induction c arbitrary: s) auto

lemma finishLog_append [simp]: "finishLog (xs @ ys) = finishLog xs @ finishLog ys"
  by (simp add: finishLog_def)

lemma finishLog_stopEvents [simp]: "finishLog (stopEvents ts) = []"
  by (induction ts) (simp_all add: stopEvents_def finishLog_def isFinishEvent_def)

lemma awaitSleep_eq:
  "awaitSleep env m rt =
     (if env (ticks rt) \<and> running rt
      then rt\<lparr>running := False, stopped := True, pendingTimers := [],
              trace := trace rt @ SetTimeout (nextTimerId rt) m
                         # stopEvents (pendingTimers rt @ [nextTimerId rt]),
              nextTimerId := nextTimerId rt + 1, ticks := ticks rt + 1\<rparr>
      else rt\<lparr>pendingTimers := remove1 (nextTimerId rt) (pendingTimers rt @ [nextTimerId rt]),
              trace := trace rt @ [SetTimeout (nextTimerId rt) m, TimerFired (nextTimerId rt),
                                   ResolveSleep (nextTimerId rt)],
              nextTimerId := nextTimerId rt + 1, ticks := ticks rt + 1\<rparr>)"
  by (simp add: awaitSleep_def sleep_def timerCallback_def suspend_eq emit_def Let_def)

lemma proj_Nil [simp]: "walkLog [] = []" "finishLog [] = []"
  by (simp_all add: walkLog_def finishLog_def)

lemma proj_single [simp]:
  "walkLog [OnStep i] = [OnStep i]" "walkLog [ApplyOpCall op] = [ApplyOpCall op]"
  "walkLog [SetTimeout t m] = []" "walkLog [TimerFired t] = []" "walkLog [ResolveSleep t] = []"
  "walkLog [OnStatus s] = []" "walkLog [OnDone] = []" "walkLog [OnError e] = []"
  "finishLog [OnStep i] = []" "finishLog [ApplyOpCall op] = []"
  "finishLog [SetTimeout t m] = []" "finishLog [TimerFired t] = []" "finishLog [ResolveSleep t] = []"
  by (simp_all add: walkLog_def isWalkEvent_def finishLog_def isFinishEvent_def)

lemma proj_Cons [simp]:
  "walkLog (SetTimeout t m # es) = walkLog es" "walkLog (TimerFired t # es) = walkLog es"
  "walkLog (ResolveSleep t # es) = walkLog es"
  "finishLog (SetTimeout t m # es) = finishLog es" "finishLog (TimerFired t # es) = finishLog es"
  "finishLog (ResolveSleep t # es) = finishLog es"
  by (simp_all add: walkLog_def isWalkEvent_def finishLog_def isFinishEvent_def)

lemma suspend_proj [simp]:
  "state (suspend env rt) = state rt"
  "callsOf (trace (suspend env rt)) = callsOf (trace rt)"
  "walkLog (trace (suspend env rt)) = walkLog (trace rt)"
  "finishLog (trace (suspend env rt)) = finishLog (trace rt)"
  by (simp_all add: suspend_eq)

lemma awaitSleep_proj [simp]:
  "state (awaitSleep env m rt) = state rt"
  "callsOf (trace (awaitSleep env m rt)) = callsOf (trace rt)"
  "walkLog (trace (awaitSleep env m rt)) = walkLog (trace rt)"
  "finishLog (trace (awaitSleep env m rt)) = finishLog (trace rt)"
  by (simp_all add: awaitSleep_eq)

lemma emit_proj [simp]:
  "state (emit e rt) = state rt"
  "trace (emit e rt) = trace rt @ [e]"
  "stopped (emit e rt) = stopped rt"
  "running (emit e rt) = running rt"
  "ticks (emit e rt) = ticks rt"
  "pendingTimers (emit e rt) = pendingTimers rt"
  by (simp_all add: emit_def)


lemma applyStep_effect:
  assumes "applyStep A env op rt = (x, rt2)"
  shows "state rt2 = appliedState (applyOp A op (state rt))"
    and "callsOf (trace rt2) = callsOf (trace rt) @ [op]"
    and "walkLog (trace rt2) = walkLog (trace rt) @ [ApplyOpCall op]"
    and "finishLog (trace rt2) = finishLog (trace rt)"
    and "x = (case raised (applyOp A op (state rt)) of None \<Rightarrow> Next | Some e \<Rightarrow> Throw e)"
  using assms
  by (cases "applyOp A op (state rt)"; auto simp add: applyStep_def Let_def)+

lemma sound_step:
  assumes "sound A s0 rt"
      and "applyStep A env op (emit (OnStep (blockId op)) rt) = (x, rt2)"
  shows "case x of Throw e \<Rightarrow> failedAt A s0 e rt2 | _ \<Rightarrow> sound A s0 rt2"
proof -
  note eff = applyStep_effect[OF assms(2)]
  show ?thesis
  proof (cases "raised (applyOp A op (state rt))")
    case None
    then show ?thesis using eff assms(1)
      by (simp add: sound_def replay_snoc allReturned_snoc)
  next
    case (Some e)
    then show ?thesis using eff assms(1)
      by (simp add: sound_def failedAt_def replay_snoc)
  qed
qed

lemma sound_onstep: "sound A s0 rt \<Longrightarrow> sound A s0 (emit (OnStep i) rt)"
  by (simp add: sound_def)

lemma sound_suspend: "sound A s0 rt \<Longrightarrow> sound A s0 (suspend env rt)"
  by (simp add: sound_def)

lemma failedAt_suspend: "failedAt A s0 e rt \<Longrightarrow> failedAt A s0 e (suspend env rt)"
  by (simp add: failedAt_def)

lemma sound_walk:
  assumes "sound A s0 rt"
  shows "case runOps A env xs rt of (Failed e, rt') \<Rightarrow> failedAt A s0 e rt' | (Fulfilled, rt') \<Rightarrow> sound A s0 rt'"
proof (rule walk_rule(1)[where I = "sound A s0" and F = "failedAt A s0"])
  show "sound A s0 rt" by (rule assms)
qed (simp_all add: sound_step sound_onstep sound_suspend failedAt_suspend)

lemma stopped_runOps: "stopped rt \<Longrightarrow> runOps A env xs rt = (Fulfilled, rt)"
  by (cases xs) simp_all

lemma stopped_runRepeat: "stopped rt \<Longrightarrow> snd (runRepeat A env b n rt) = rt"
  by (cases n) simp_all

lemma unrollOp_Repeat: "unrollOp (Repeat t b i) = OnStep i # concat (replicate (nat (max 0 \<lfloor>t\<rfloor>)) (unroll b))"
  by (simp add: unroll_def)

lemma unrollOp_other: "\<not> isRepeat op \<Longrightarrow> unrollOp op = [OnStep (blockId op), ApplyOpCall op]"
  by (cases op) (simp_all add: isRepeat_def)

lemma unroll_Cons: "unroll (op # xs) = unrollOp op @ unroll xs"
  by (simp add: unroll_def)

lemma prefix_app3: "prefix xs (a @ b) \<Longrightarrow> prefix xs (a @ b @ c)"
  by (metis append_assoc prefix_prefix)

lemma walk_log:
  shows "runOps A env xs rt = (r, rt') \<Longrightarrow>
           prefix (walkLog (trace rt')) (walkLog (trace rt) @ unroll xs)
           \<and> (r = Fulfilled \<and> \<not> stopped rt' \<longrightarrow> walkLog (trace rt') = walkLog (trace rt) @ unroll xs)"
    and "runRepeat A env b n rt = (x, rt'') \<Longrightarrow>
           prefix (walkLog (trace rt'')) (walkLog (trace rt) @ concat (replicate n (unroll b)))
           \<and> (x = Next \<and> \<not> stopped rt'' \<longrightarrow>
                walkLog (trace rt'') = walkLog (trace rt) @ concat (replicate n (unroll b)))
           \<and> (x = Return \<longrightarrow> stopped rt'')"
proof (induction A env xs rt and A env b n rt arbitrary: r rt' and x rt'' rule: runOps_runRepeat.induct)
  case (1 A env rt)
  then show ?case by (auto simp add: unroll_def)
next
  case (2 A env op rest rt)
  show ?case
  proof (cases "stopped rt")
    case True
    then show ?thesis using "2.prems" by auto
  next
    case False
    obtain x rt2 where step: "(case op of
                 Repeat t b i \<Rightarrow> runRepeat A env b (nat (max 0 \<lfloor>t\<rfloor>)) (emit (OnStep i) rt)
               | _ \<Rightarrow> applyStep A env op (emit (OnStep (blockId op)) rt)) = (x, rt2)"
      by (cases "(case op of
                 Repeat t b i \<Rightarrow> runRepeat A env b (nat (max 0 \<lfloor>t\<rfloor>)) (emit (OnStep i) rt)
               | _ \<Rightarrow> applyStep A env op (emit (OnStep (blockId op)) rt))") auto
    have post: "prefix (walkLog (trace rt2)) (walkLog (trace rt) @ unrollOp op)
        \<and> (x = Next \<and> \<not> stopped rt2 \<longrightarrow> walkLog (trace rt2) = walkLog (trace rt) @ unrollOp op)
        \<and> (x = Return \<longrightarrow> stopped rt2)"
    proof (cases "isRepeat op")
      case True
      then obtain t b i where Repeat: "op = Repeat t b i"
        by (cases op) (simp_all add: isRepeat_def)
      from step Repeat have "runRepeat A env b (nat (max 0 \<lfloor>t\<rfloor>)) (emit (OnStep i) rt) = (x, rt2)"
        by simp
      from "2.IH"(1)[OF False Repeat this] show ?thesis
        by (simp add: Repeat unrollOp_Repeat del: unrollOp.simps)
    next
      case nr: False
      then have "applyStep A env op (emit (OnStep (blockId op)) rt) = (x, rt2)"
        using step by (cases op) (simp_all add: isRepeat_def)
      from applyStep_effect(3,5)[OF this] show ?thesis
        by (auto simp add: unrollOp_other[OF nr] split: option.splits)
    qed
    show ?thesis
    proof (cases x)
      case Next
      then have run: "runOps A env rest rt2 = (r, rt')" using "2.prems" step False by simp
      note ih = "2.IH"(2)[OF False step[symmetric] Next run]
      show ?thesis
      proof (cases "stopped rt2")
        case True
        then have "rt' = rt2" using run by (simp add: stopped_runOps)
        then show ?thesis using post True by (auto simp add: unroll_Cons prefix_app3)
      next
        case ns: False
        then have "walkLog (trace rt2) = walkLog (trace rt) @ unrollOp op" using post Next by simp
        then show ?thesis using ih by (simp add: unroll_Cons)
      qed
    next
      case Return
      then have "rt' = rt2" "r = Fulfilled" using "2.prems" step False by simp_all
      then show ?thesis using post Return by (auto simp add: unroll_Cons prefix_app3)
    next
      case (Throw e)
      then have "rt' = rt2" "r = Failed e" using "2.prems" step False by simp_all
      then show ?thesis using post by (auto simp add: unroll_Cons prefix_app3)
    qed
  qed
next
  case (3 A env b rt)
  then show ?case by auto
next
  case (4 A env b n rt)
  show ?case
  proof (cases "stopped rt")
    case True
    then show ?thesis using "4.prems" by auto
  next
    case False
    obtain r rt1 where body: "runOps A env b rt = (r, rt1)" by (cases "runOps A env b rt") auto
    note ih1 = "4.IH"(1)[OF False body]
    show ?thesis
    proof (cases r)
      case Fulfilled
      then have run: "runRepeat A env b n (suspend env rt1) = (x, rt'')"
        using "4.prems" body False by simp
      note ih2 = "4.IH"(2)[OF False body[symmetric] Fulfilled run]
      show ?thesis
      proof (cases "stopped (suspend env rt1)")
        case True
        then have "rt'' = suspend env rt1" using run stopped_runRepeat[of "suspend env rt1" A env b n] by simp
        then show ?thesis using ih1 ih2 True by (auto simp add: prefix_app3)
      next
        case ns: False
        then have "\<not> stopped rt1" by (auto simp add: suspend_eq split: if_splits)
        then have "walkLog (trace rt1) = walkLog (trace rt) @ unroll b" using ih1 Fulfilled by simp
        then show ?thesis using ih2 by simp
      qed
    next
      case (Failed e)
      then have "rt'' = suspend env rt1" "x = Throw e" using "4.prems" body False by simp_all
      then show ?thesis using ih1 by (auto simp add: prefix_app3)
    qed
  qed
qed

lemma afterStop_append:
  "afterStop (xs @ ys) =
     (if OnStatus ''Detenido.'' \<in> set xs then afterStop xs @ ys else afterStop ys)"
proof (cases "OnStatus ''Detenido.'' \<in> set xs")
  case True
  then obtain z zs where "dropWhile (\<lambda>e. e \<noteq> OnStatus ''Detenido.'') xs = z # zs"
    by (cases "dropWhile (\<lambda>e. e \<noteq> OnStatus ''Detenido.'') xs") auto
  moreover have "dropWhile (\<lambda>e. e \<noteq> OnStatus ''Detenido.'') (xs @ ys)
    = dropWhile (\<lambda>e. e \<noteq> OnStatus ''Detenido.'') xs @ ys"
    using True by (intro dropWhile_append1[of "OnStatus ''Detenido.''"]) auto
  ultimately show ?thesis using True by (simp add: afterStop_def)
next
  case False
  then have "dropWhile (\<lambda>e. e \<noteq> OnStatus ''Detenido.'') (xs @ ys)
    = dropWhile (\<lambda>e. e \<noteq> OnStatus ''Detenido.'') ys"
    by (intro dropWhile_append2) auto
  then show ?thesis using False by (simp add: afterStop_def)
qed

lemma stopEvents_Det [simp]: "OnStatus ''Detenido.'' \<in> set (stopEvents ts)"
  by (simp add: stopEvents_def)

lemma afterStop_stopEvents [simp]: "afterStop (stopEvents ts) = []"
  by (induction ts) (simp_all add: stopEvents_def afterStop_def)

lemma afterStop_single [simp]: "afterStop [e] = []"
  by (simp add: afterStop_def)

lemma afterStop_Nil [simp]: "afterStop [] = []"
  by (simp add: afterStop_def)

lemma afterStop_timer [simp]:
  "afterStop (SetTimeout t m # es) = afterStop es"
  "afterStop (TimerFired t # es) = afterStop es"
  "afterStop (ResolveSleep t # es) = afterStop es"
  by (simp_all add: afterStop_def)

lemma ex_less_Suc: "(\<exists>k<Suc n. env k) = ((\<exists>k<n. env k) \<or> env n)"
  by (auto simp add: less_Suc_eq)

lemma stopInv_suspend: "stopInv env rt \<Longrightarrow> stopInv env (suspend env rt)"
  by (auto simp add: stopInv_def suspend_eq afterStop_append ex_less_Suc)

lemma stopInv_awaitSleep: "stopInv env rt \<Longrightarrow> stopInv env (awaitSleep env m rt)"
  by (auto simp add: stopInv_def awaitSleep_eq afterStop_append ex_less_Suc)

lemma stopInv_emit:
  "stopInv env rt \<Longrightarrow> \<not> stopped rt \<Longrightarrow> e \<noteq> OnStatus ''Detenido.'' \<Longrightarrow> stopInv env (emit e rt)"
  by (auto simp add: stopInv_def afterStop_append)

lemma stopInv_state: "stopInv env (rt\<lparr>state := s\<rparr>) = stopInv env rt"
  by (simp add: stopInv_def)

lemma stopInv_applyStep:
  assumes "stopInv env rt" and "\<not> stopped rt"
      and "applyStep A env op (emit (OnStep i) rt) = (x, rt2)"
  shows "stopInv env rt2"
proof -
  have a: "stopInv env (emit (ApplyOpCall op) (emit (OnStep i) rt))"
    using assms(1,2) by (simp add: stopInv_emit)
  show ?thesis
  proof (cases "applyOp A op (state rt)")
    case (Returned s)
    then have "rt2 = (let r = (suspend env (emit (ApplyOpCall op) (emit (OnStep i) rt)))\<lparr>state := s\<rparr>
                     in if isWait op then awaitSleep env (max 0 (ms op)) r else r)"
      using assms(3) by (simp add: applyStep_def Let_def)
    then show ?thesis using a
      by (simp add: Let_def stopInv_awaitSleep stopInv_state stopInv_suspend)
  next
    case (Threw e s)
    then have "rt2 = (emit (ApplyOpCall op) (emit (OnStep i) rt))\<lparr>state := s\<rparr>"
      using assms(3) by (simp add: applyStep_def)
    then show ?thesis using a by (simp add: stopInv_state)
  next
    case (Rejected e s)
    then have "rt2 = suspend env ((emit (ApplyOpCall op) (emit (OnStep i) rt))\<lparr>state := s\<rparr>)"
      using assms(3) by (simp add: applyStep_def)
    then show ?thesis using a by (simp add: stopInv_state stopInv_suspend)
  qed
qed

lemma stopInv_walk:
  assumes "stopInv env rt"
  shows "stopInv env (snd (runOps A env xs rt))"
proof -
  have "case runOps A env xs rt of (Failed e, rt') \<Rightarrow> stopInv env rt' | (Fulfilled, rt') \<Rightarrow> stopInv env rt'"
  proof (rule walk_rule(1)[where I = "stopInv env" and F = "\<lambda>e. stopInv env"])
    show "stopInv env rt" by (rule assms)
  next
    fix rt op x rt2
    assume "stopInv env rt" "\<not> stopped rt" "applyStep A env op (emit (OnStep (blockId op)) rt) = (x, rt2)"
    then have "stopInv env rt2" by (rule stopInv_applyStep)
    then show "case x of Throw e \<Rightarrow> stopInv env rt2 | _ \<Rightarrow> stopInv env rt2"
      by (cases x) simp_all
  qed (simp_all add: stopInv_emit stopInv_suspend)
  then show ?thesis by (cases "runOps A env xs rt") (auto split: Completion.splits)
qed

lemma callsOf_single [simp]:
  "callsOf [OnStatus s] = []" "callsOf [OnDone] = []" "callsOf [OnError e] = []"
  "callsOf [OnStep i] = []"
  by simp_all

lemma finishLog_finish [simp]:
  "finishLog [OnError e] = [OnError e]"
  "finishLog [OnDone, OnStatus ''Finalizado.''] = [OnDone, OnStatus ''Finalizado.'']"
  by (simp_all add: finishLog_def isFinishEvent_def)

lemma start_sound: "sound A (reset A init) (startRuntime A init)"
  by (simp add: sound_def startRuntime_def initRuntime_def finishLog_def isFinishEvent_def)

lemma start_stopInv: "stopInv env (startRuntime A init)"
  by (simp add: stopInv_def startRuntime_def initRuntime_def)

lemma start_walkLog: "walkLog (trace (startRuntime A init)) = []"
  by (simp add: startRuntime_def initRuntime_def)

lemma runProgram_eq:
  "runProgram A env P init = finish env (runOps A env (ops P) (startRuntime A init))"
  by (simp add: runProgram_def run_def startRuntime_def)

lemma finish_Fulfilled:
  "finish env (Fulfilled, rt1) =
     (if \<not> stopped (suspend env rt1)
      then (suspend env rt1)\<lparr>trace := trace (suspend env rt1) @ [OnDone, OnStatus ''Finalizado.''],
                               running := False\<rparr>
      else (suspend env rt1)\<lparr>running := False\<rparr>)"
  by (simp add: finish_def Let_def emit_def)

lemma finish_Failed:
  "finish env (Failed e, rt1) =
     (suspend env rt1)\<lparr>trace := trace (suspend env rt1) @ [OnError e], running := False\<rparr>"
  by (simp add: finish_def Let_def emit_def)

lemma allReturned_append:
  "allReturned A s (xs @ ys) = (allReturned A s xs \<and> allReturned A (replay A s xs) ys)"
  by (induction xs arbitrary: s) auto

lemma raised_in_returned:
  assumes "allReturned A s (c @ op # c2)"
  shows "raised (applyOp A op (replay A s c)) = None"
  using assms by (simp add: allReturned_append)

lemma raising_call_is_last:
  assumes all: "allReturned A s c'"
      and eq: "c' @ [op'] = c @ op # c2"
      and r: "raised (applyOp A op (replay A s c)) = Some e"
  shows "c = c' \<and> op = op' \<and> c2 = []"
proof (cases c2 rule: rev_cases)
  case Nil
  then show ?thesis using eq by simp
next
  case (snoc ys y)
  then have "c' = c @ op # ys" using eq by simp
  with all have "allReturned A s (c @ op # ys)" by simp
  then have "raised (applyOp A op (replay A s c)) = None"
    by (rule raised_in_returned)
  then show ?thesis using r by simp
qed

lemma finishLog_only_error:
  assumes "finishLog tr = [OnError e]"
  shows "OnDone \<notin> set tr \<and> OnStatus ''Finalizado.'' \<notin> set tr"
proof -
  have "set (finishLog tr) = {OnError e}" using assms by simp
  then have h: "x \<in> set tr \<Longrightarrow> isFinishEvent x \<Longrightarrow> x = OnError e" for x
    by (auto simp add: finishLog_def)
  from h[of OnDone] h[of "OnStatus ''Finalizado.''"] show ?thesis
    by (auto simp add: isFinishEvent_def)
qed

lemma failedAt_not_allReturned:
  assumes "failedAt A s0 e rt"
  shows "\<not> allReturned A s0 (callsOf (trace rt))"
  using assms by (auto simp add: failedAt_def allReturned_snoc)

lemma run_facts:
  assumes w: "runOps A env (ops P) (startRuntime A init) = (res, rt1)"
  shows "runProgram A env P init = finish env (res, rt1)"
    and "case res of Failed e \<Rightarrow> failedAt A (reset A init) e rt1 | Fulfilled \<Rightarrow> sound A (reset A init) rt1"
    and "stopInv env (suspend env rt1)"
    and "prefix (walkLog (trace rt1)) (unroll (ops P))"
    and "res = Fulfilled \<and> \<not> stopped rt1 \<longrightarrow> walkLog (trace rt1) = unroll (ops P)"
proof -
  show "runProgram A env P init = finish env (res, rt1)"
    by (simp add: runProgram_eq w)
  from sound_walk[OF start_sound[of A init], where env = env and xs = "ops P"] w
  show "case res of Failed e \<Rightarrow> failedAt A (reset A init) e rt1 | Fulfilled \<Rightarrow> sound A (reset A init) rt1"
    by simp
  from stopInv_walk[OF start_stopInv[of env A init], where A = A and xs = "ops P"] w
  show "stopInv env (suspend env rt1)" by (simp add: stopInv_suspend)
  from walk_log(1)[OF w]
  show "prefix (walkLog (trace rt1)) (unroll (ops P))"
    and "res = Fulfilled \<and> \<not> stopped rt1 \<longrightarrow> walkLog (trace rt1) = unroll (ops P)"
    by (simp_all add: start_walkLog)
qed

lemma walkLog_finish [simp]: "walkLog [OnDone, OnStatus s] = []"
  by (simp add: walkLog_def isWalkEvent_def)

lemma stopped_suspend_mono: "stopped rt \<Longrightarrow> stopped (suspend env rt)"
  by (simp add: suspend_eq)

lemma dropWhile_all: "\<forall>x\<in>set xs. P x \<Longrightarrow> dropWhile P xs = []"
  by (induction xs) simp_all

lemma afterStop_none: "OnStatus ''Detenido.'' \<notin> set tr \<Longrightarrow> afterStop tr = []"
proof -
  assume "OnStatus ''Detenido.'' \<notin> set tr"
  then have "\<forall>x\<in>set tr. x \<noteq> OnStatus ''Detenido.''" by blast
  then have d: "dropWhile (\<lambda>e. e \<noteq> OnStatus ''Detenido.'') tr = []"
    by (rule dropWhile_all)
  show ?thesis unfolding afterStop_def d by simp
qed

lemma afterStop_subset: "set (afterStop tr) \<subseteq> set tr"
proof -
  have "set (afterStop tr) \<subseteq> set (dropWhile (\<lambda>e. e \<noteq> OnStatus ''Detenido.'') tr)"
    unfolding afterStop_def by (rule set_drop_subset)
  also have "\<dots> \<subseteq> set tr" by (auto dest: set_dropWhileD)
  finally show ?thesis .
qed

lemma run_afterStop:
  "walkLog (afterStop (trace (runProgram A env P init))) = []
   \<and> OnDone \<notin> set (afterStop (trace (runProgram A env P init)))
   \<and> (OnStatus ''Detenido.'' \<in> set (trace (runProgram A env P init)) \<longrightarrow>
        OnDone \<notin> set (trace (runProgram A env P init)))"
proof -
  obtain res rt1 where w: "runOps A env (ops P) (startRuntime A init) = (res, rt1)"
    by (cases "runOps A env (ops P) (startRuntime A init)") auto
  note f = run_facts[OF w]
  let ?rt2 = "suspend env rt1"
  have inv: "stopped ?rt2 = (OnStatus ''Detenido.'' \<in> set (trace ?rt2))"
    "walkLog (afterStop (trace ?rt2)) = []"
    using f(3) unfolding stopInv_def by blast+
  have nofin: "finishLog (trace ?rt2) = []"
    using f(2) by (cases res) (simp_all add: sound_def failedAt_def)
  then have nd: "OnDone \<notin> set (trace ?rt2)"
    by (auto simp add: finishLog_def filter_empty_conv isFinishEvent_def)
  then have nd2: "OnDone \<notin> set (afterStop (trace ?rt2))"
    using afterStop_subset by blast
  show ?thesis
  proof (cases res)
    case Fulfilled
    show ?thesis
    proof (cases "stopped ?rt2")
      case True
      then have R: "runProgram A env P init = ?rt2\<lparr>running := False\<rparr>"
        using f(1) Fulfilled by (simp add: finish_Fulfilled)
      show ?thesis using inv nd nd2 by (simp add: R)
    next
      case False
      then have R: "runProgram A env P init
          = ?rt2\<lparr>trace := trace ?rt2 @ [OnDone, OnStatus ''Finalizado.''], running := False\<rparr>"
        using f(1) Fulfilled by (simp add: finish_Fulfilled)
      have "OnStatus ''Detenido.'' \<notin> set (trace ?rt2 @ [OnDone, OnStatus ''Finalizado.''])"
        using False inv by simp
      then show ?thesis by (simp add: R afterStop_none del: set_append)
    qed
  next
    case (Failed e)
    have R: "runProgram A env P init = ?rt2\<lparr>trace := trace ?rt2 @ [OnError e], running := False\<rparr>"
      using f(1) Failed by (simp add: finish_Failed)
    show ?thesis using inv nd nd2 by (simp add: R afterStop_append)
  qed
qed

lemma announced_step: "announced ys \<Longrightarrow> announced (OnStep v # ys)"
  by (cases ys rule: announced.cases) simp_all

lemma announced_append: "announced xs \<Longrightarrow> announced ys \<Longrightarrow> announced (xs @ ys)"
  by (induction xs rule: announced.induct) (simp_all add: announced_step)

lemma announced_concat: "(\<And>x. x \<in> set xss \<Longrightarrow> announced x) \<Longrightarrow> announced (concat xss)"
  by (induction xss) (simp_all add: announced_append)

lemma announced_unrollOp: "announced (unrollOp op)"
proof (induction op)
  case (Repeat t b i)
  have "announced (concat (map unrollOp b))"
    by (rule announced_concat) (auto simp add: Repeat)
  then have "announced (concat (replicate (nat (max 0 \<lfloor>t\<rfloor>)) (concat (map unrollOp b))))"
    by (intro announced_concat) simp
  then show ?case by (simp add: announced_step)
qed simp_all

lemma announced_unroll: "announced (unroll xs)"
  unfolding unroll_def by (intro announced_concat) (auto simp add: announced_unrollOp)

lemma announced_prefix: "announced (xs @ ys) \<Longrightarrow> announced xs"
  by (induction xs rule: announced.induct) simp_all


section \<open>Properties of the maze adapter\<close>

lemmas maze_defs = mazeApplyOp_def getLevel_def grid3_def makeInitialState_def Let_def
  inBounds_def isBlocked_def turnLeft_def turnRight_def DIR_ORDER_def

lemmas run_defs = runProgram_def run_def finish_def initRuntime_def adapter_def mazeReset_def
  applyStep_def suspend_def emit_def neverStop_def scenario_def isWait_def

lemma run_scenario_0_2:
  "runProgram (adapter (grid3 0 2)) neverStop scenario (makeInitialState (grid3 0 2) 1)
     = \<lparr>running = False, stopped = False,
        state = \<lparr>levelId = 1, player = \<lparr>px = 1, py = 1, dir = E\<rparr>, status = status_win,
                 message = Some msgLlegaste\<rparr>,
        pendingTimers = [],
        trace = [OnStatus ''Ejecutando...'', OnStep ''s'', ApplyOpCall (Start ''s''),
                 OnStep ''m1'', ApplyOpCall (Move 1 ''m1''), OnStep ''t'',
                 ApplyOpCall (Turn Right ''t''), OnStep ''m2'', ApplyOpCall (Move 1 ''m2''),
                 OnError (Error ''WIN'')],
        nextTimerId = 1, ticks = 4\<rparr>"
  by (simp add: run_defs maze_defs)

lemma run_scenario_0_0:
  "runProgram (adapter (grid3 0 0)) neverStop scenario (makeInitialState (grid3 0 0) 1)
     = \<lparr>running = False, stopped = False,
        state = \<lparr>levelId = 1, player = \<lparr>px = 0, py = 0, dir = N\<rparr>, status = status_error,
                 message = Some msgChoque\<rparr>,
        pendingTimers = [],
        trace = [OnStatus ''Ejecutando...'', OnStep ''s'', ApplyOpCall (Start ''s''),
                 OnStep ''m1'', ApplyOpCall (Move 1 ''m1''), OnError (Error ''CHOQUE'')],
        nextTimerId = 1, ticks = 2\<rparr>"
  by (simp add: run_defs maze_defs)

text \<open>
  Claim C1, as amended. North is the direction of decreasing y (\<open>DIR_DELTAS\<close>), so the
  scenario reaches the goal when the player starts at (0,2), not at (0,0): on the 3 by 3
  grid without walls and with the goal at (1,1), the program Start, Move 1, Turn right,
  Move 1 moves the player from (0,2) to (0,1), turns it east and moves it to (1,1);
  there \<open>applyOp\<close> throws WIN, the run passes that error to \<open>onError\<close>, and the status of
  the state is win.
\<close>

theorem scenario_wins_from_0_2:
  "mazeApplyOp (grid3 0 2) (Move 1 ''m1'') (makeInitialState (grid3 0 2) 1)
     = Returned \<lparr>levelId = 1, player = \<lparr>px = 0, py = 1, dir = N\<rparr>, status = status_idle,
                 message = None\<rparr>
   \<and> mazeApplyOp (grid3 0 2) (Turn Right ''t'')
        \<lparr>levelId = 1, player = \<lparr>px = 0, py = 1, dir = N\<rparr>, status = status_idle, message = None\<rparr>
     = Returned \<lparr>levelId = 1, player = \<lparr>px = 0, py = 1, dir = E\<rparr>, status = status_idle,
                 message = None\<rparr>
   \<and> mazeApplyOp (grid3 0 2) (Move 1 ''m2'')
        \<lparr>levelId = 1, player = \<lparr>px = 0, py = 1, dir = E\<rparr>, status = status_idle, message = None\<rparr>
     = Threw (Error ''WIN'')
         \<lparr>levelId = 1, player = \<lparr>px = 1, py = 1, dir = E\<rparr>, status = status_win,
          message = Some msgLlegaste\<rparr>
   \<and> runProgram (adapter (grid3 0 2)) neverStop scenario (makeInitialState (grid3 0 2) 1)
     = \<lparr>running = False, stopped = False,
        state = \<lparr>levelId = 1, player = \<lparr>px = 1, py = 1, dir = E\<rparr>, status = status_win,
                 message = Some msgLlegaste\<rparr>,
        pendingTimers = [],
        trace = [OnStatus ''Ejecutando...'', OnStep ''s'', ApplyOpCall (Start ''s''),
                 OnStep ''m1'', ApplyOpCall (Move 1 ''m1''), OnStep ''t'',
                 ApplyOpCall (Turn Right ''t''), OnStep ''m2'', ApplyOpCall (Move 1 ''m2''),
                 OnError (Error ''WIN'')],
        nextTimerId = 1, ticks = 4\<rparr>"
  by (simp add: run_scenario_0_2) (simp add: maze_defs)

text \<open>
  Claim C1 as stated fails: from (0,0) facing north the first move would leave the grid
  at (0,-1). \<open>applyOp\<close> throws CHOQUE, the player stays at (0,0), \<open>onError\<close> receives
  CHOQUE and the status is error, not win.
\<close>

theorem scenario_collides_from_0_0:
  "mazeApplyOp (grid3 0 0) (Move 1 ''m1'') (makeInitialState (grid3 0 0) 1)
     = Threw (Error ''CHOQUE'')
         \<lparr>levelId = 1, player = \<lparr>px = 0, py = 0, dir = N\<rparr>, status = status_error,
          message = Some msgChoque\<rparr>
   \<and> status (state (runProgram (adapter (grid3 0 0)) neverStop scenario
         (makeInitialState (grid3 0 0) 1))) \<noteq> status_win
   \<and> runProgram (adapter (grid3 0 0)) neverStop scenario (makeInitialState (grid3 0 0) 1)
     = \<lparr>running = False, stopped = False,
        state = \<lparr>levelId = 1, player = \<lparr>px = 0, py = 0, dir = N\<rparr>, status = status_error,
                 message = Some msgChoque\<rparr>,
        pendingTimers = [],
        trace = [OnStatus ''Ejecutando...'', OnStep ''s'', ApplyOpCall (Start ''s''),
                 OnStep ''m1'', ApplyOpCall (Move 1 ''m1''), OnError (Error ''CHOQUE'')],
        nextTimerId = 1, ticks = 2\<rparr>"
  by (simp add: run_scenario_0_0) (simp add: maze_defs)

lemma find_Some_holds: "find P xs = Some x \<Longrightarrow> P x"
  by (induction xs) (auto split: if_splits)

lemma getLevel_idem: "getLevel lv (level_id (getLevel lv i)) = getLevel lv i"
proof (cases lv)
  case (Levels l0 ls)
  show ?thesis
  proof (cases "find (\<lambda>level. level_id level = i) (l0 # ls)")
    case None
    then show ?thesis using Levels by (simp add: getLevel_def)
  next
    case (Some l)
    then have "level_id l = i" by (rule find_Some_holds)
    then show ?thesis using Levels Some by (simp add: getLevel_def)
  qed
qed

text \<open>
  Claim C8, as amended. \<open>deserializeState\<close> sets the status to idle and takes the level
  id from \<open>getLevel\<close>; the player's position and direction and the message come back as
  they were. So a state comes back unchanged exactly when its status is idle and its
  level id is the id of the level that \<open>getLevel\<close> finds for it.
\<close>

theorem deserialize_serialize:
  "deserializeState lv (Some (serializeState st))
     = st\<lparr>levelId := level_id (getLevel lv (levelId st)), status := status_idle\<rparr>
   \<and> (deserializeState lv (Some (serializeState st)) = st \<longleftrightarrow>
        status st = status_idle \<and> level_id (getLevel lv (levelId st)) = levelId st)"
proof -
  have d: "dir (player st) \<in> set DIR_ORDER"
    by (cases "dir (player st)") (simp_all add: DIR_ORDER_def)
  have eq: "deserializeState lv (Some (serializeState st))
     = st\<lparr>levelId := level_id (getLevel lv (levelId st)), status := status_idle\<rparr>"
    using d
    by (simp add: deserializeState_def serializeState_def restorePlayer_def makeInitialState_def
        Let_def getLevel_idem)
  have "st\<lparr>levelId := level_id (getLevel lv (levelId st)), status := status_idle\<rparr> = st \<longleftrightarrow>
        status st = status_idle \<and> level_id (getLevel lv (levelId st)) = levelId st"
    by (cases st) auto
  with eq show ?thesis by simp
qed

theorem deserialize_serialize_witness:
  "deserializeState (grid3 0 0) (Some (serializeState
      \<lparr>levelId = 1, player = \<lparr>px = 2, py = 1, dir = W\<rparr>, status = status_idle,
       message = Some ''Detenido''\<rparr>))
    = \<lparr>levelId = 1, player = \<lparr>px = 2, py = 1, dir = W\<rparr>, status = status_idle,
       message = Some ''Detenido''\<rparr>"
  using deserialize_serialize [of "grid3 0 0"
      "\<lparr>levelId = 1, player = \<lparr>px = 2, py = 1, dir = W\<rparr>, status = status_idle,
        message = Some ''Detenido''\<rparr>"]
  by (simp add: getLevel_def grid3_def)

text \<open>
  Claim C8 as stated fails: a state whose status is win comes back with the status idle.
\<close>

theorem deserialize_serialize_counterexample:
  "deserializeState (grid3 0 0) (Some (serializeState
      \<lparr>levelId = 1, player = \<lparr>px = 1, py = 1, dir = E\<rparr>, status = status_win,
       message = Some msgLlegaste\<rparr>))
    \<noteq> \<lparr>levelId = 1, player = \<lparr>px = 1, py = 1, dir = E\<rparr>, status = status_win,
       message = Some msgLlegaste\<rparr>"
  by (simp add: deserializeState_def serializeState_def restorePlayer_def makeInitialState_def
      Let_def)

text \<open>
  Claim C9. When the status of the state is win or error, the maze adapter's \<open>applyOp\<close>
  returns the state as it is, for every op: nothing is changed and nothing is thrown.
\<close>

theorem mazeApplyOp_terminal:
  "status st = status_win \<or> status st = status_error \<Longrightarrow> mazeApplyOp lv op st = Returned st"
  by (auto simp add: mazeApplyOp_def Let_def)

theorem mazeApplyOp_terminal_witness:
  "mazeApplyOp (grid3 0 0) (Move 1 ''m'')
      \<lparr>levelId = 1, player = \<lparr>px = 0, py = 0, dir = S\<rparr>, status = status_error,
       message = Some msgChoque\<rparr>
    = Returned \<lparr>levelId = 1, player = \<lparr>px = 0, py = 0, dir = S\<rparr>, status = status_error,
       message = Some msgChoque\<rparr>"
  using mazeApplyOp_terminal [of
      "\<lparr>levelId = 1, player = \<lparr>px = 0, py = 0, dir = S\<rparr>, status = status_error,
        message = Some msgChoque\<rparr>" "grid3 0 0" "Move 1 ''m''"]
  by simp

lemma moveLoop_keeps:
  "inBounds level (px (player st)) (py (player st)) \<Longrightarrow>
   \<not> isBlocked level (px (player st)) (py (player st)) \<Longrightarrow>
   levelId (appliedState (moveLoop level delta sign n st)) = levelId st
   \<and> inBounds level (px (player (appliedState (moveLoop level delta sign n st))))
        (py (player (appliedState (moveLoop level delta sign n st))))
   \<and> \<not> isBlocked level (px (player (appliedState (moveLoop level delta sign n st))))
        (py (player (appliedState (moveLoop level delta sign n st))))"
proof (induction n arbitrary: st)
  case 0
  then show ?case by simp
next
  case (Suc n)
  show ?case
  proof (cases "\<not> inBounds level (px (player st) + px delta * sign) (py (player st) + py delta * sign)
      \<or> isBlocked level (px (player st) + px delta * sign) (py (player st) + py delta * sign)")
    case True
    then show ?thesis using Suc.prems by (simp add: Let_def)
  next
    case False
    let ?st1 = "st\<lparr>player := (player st)\<lparr>px := px (player st) + px delta * sign,
                                          py := py (player st) + py delta * sign\<rparr>\<rparr>"
    have ok: "inBounds level (px (player ?st1)) (py (player ?st1))"
             "\<not> isBlocked level (px (player ?st1)) (py (player ?st1))"
      using False by simp_all
    from Suc.IH[OF ok] False ok show ?thesis
      by (auto simp add: Let_def)
  qed
qed

lemma mazeApplyOp_keeps:
  assumes "legal lv st"
  shows "legal lv (appliedState (mazeApplyOp lv op st))"
proof (cases "status st = status_win \<or> status st = status_error")
  case True
  then show ?thesis using assms by (auto simp add: mazeApplyOp_def Let_def)
next
  case False
  show ?thesis
  proof (cases op)
    case (Move n b)
    from assms have a: "inBounds (getLevel lv (levelId st)) (px (player st)) (py (player st))"
      "\<not> isBlocked (getLevel lv (levelId st)) (px (player st)) (py (player st))"
      by (simp_all add: legal_def Let_def)
    from moveLoop_keeps[OF a] show ?thesis using False Move
      by (simp add: mazeApplyOp_def legal_def Let_def)
  qed (use assms False in \<open>simp_all add: mazeApplyOp_def legal_def Let_def\<close>)
qed

text \<open>
  Claim C10. Let the start cell of the level of \<open>makeInitialState(i)\<close> be inside the grid
  and not a wall. Then in every state reached from \<open>makeInitialState(i)\<close> by calls of
  \<open>applyOp\<close> that return normally the player is inside the grid of the level and not on a
  wall; and whatever op is applied next, the player is on such a cell afterwards too,
  whether the call returns or throws (a move throws before it enters a cell outside the
  grid or a wall).
\<close>

theorem maze_player_legal:
  assumes start_in: "inBounds (getLevel lv i) (px (start (getLevel lv i))) (py (start (getLevel lv i)))"
      and start_free: "\<not> isBlocked (getLevel lv i) (px (start (getLevel lv i))) (py (start (getLevel lv i)))"
      and reach: "reachable lv i st"
  shows "legal lv st \<and> (\<forall>op. legal lv (appliedState (mazeApplyOp lv op st)))"
proof -
  have "legal lv st" using reach
  proof (induction rule: reachable.induct)
    case initial
    then show ?case using start_in start_free
      by (simp add: legal_def makeInitialState_def Let_def getLevel_idem)
  next
    case (step st op st')
    from mazeApplyOp_keeps[OF step.IH, of op] step.hyps(2) show ?case by simp
  qed
  then show ?thesis using mazeApplyOp_keeps by blast
qed

theorem maze_player_legal_witness:
  "inBounds (getLevel (grid3 0 2) 1) (px (start (getLevel (grid3 0 2) 1)))
      (py (start (getLevel (grid3 0 2) 1)))
   \<and> \<not> isBlocked (getLevel (grid3 0 2) 1) (px (start (getLevel (grid3 0 2) 1)))
      (py (start (getLevel (grid3 0 2) 1)))
   \<and> reachable (grid3 0 2) 1
      \<lparr>levelId = 1, player = \<lparr>px = 0, py = 1, dir = N\<rparr>, status = status_idle, message = None\<rparr>
   \<and> legal (grid3 0 2)
      \<lparr>levelId = 1, player = \<lparr>px = 0, py = 1, dir = N\<rparr>, status = status_idle, message = None\<rparr>"
proof -
  let ?st = "\<lparr>levelId = 1, player = \<lparr>px = 0, py = 1, dir = N\<rparr>, status = status_idle,
              message = None\<rparr>"
  have a: "inBounds (getLevel (grid3 0 2) 1) (px (start (getLevel (grid3 0 2) 1)))
      (py (start (getLevel (grid3 0 2) 1)))"
    by (simp add: maze_defs)
  have b: "\<not> isBlocked (getLevel (grid3 0 2) 1) (px (start (getLevel (grid3 0 2) 1)))
      (py (start (getLevel (grid3 0 2) 1)))"
    by (simp add: maze_defs)
  have "mazeApplyOp (grid3 0 2) (Move 1 ''m1'') (makeInitialState (grid3 0 2) 1) = Returned ?st"
    by (simp add: maze_defs)
  then have c: "reachable (grid3 0 2) 1 ?st"
    by (rule reachable.step[OF reachable.initial])
  from maze_player_legal[OF a b c] a b c show ?thesis by blast
qed


section \<open>Properties of the runtime\<close>

lemma run_turnTwice:
  "runProgram (adapter (grid3 0 2)) neverStop turnTwice (makeInitialState (grid3 0 2) 1)
     = \<lparr>running = False, stopped = False,
        state = \<lparr>levelId = 1, player = \<lparr>px = 0, py = 2, dir = S\<rparr>, status = status_idle,
                 message = None\<rparr>,
        pendingTimers = [],
        trace = [OnStatus ''Ejecutando...'', OnStep ''s'', ApplyOpCall (Start ''s''),
                 OnStep ''r'', OnStep ''t'', ApplyOpCall (Turn Left ''t''), OnStep ''t'',
                 ApplyOpCall (Turn Left ''t''), OnDone, OnStatus ''Finalizado.''],
        nextTimerId = 1, ticks = 6\<rparr>"
  by code_simp

lemma run_waitThenMove:
  "runProgram (adapter (grid3 0 2)) (stopAt 2) waitThenMove (makeInitialState (grid3 0 2) 1)
     = \<lparr>running = False, stopped = True,
        state = \<lparr>levelId = 1, player = \<lparr>px = 0, py = 2, dir = N\<rparr>, status = status_idle,
                 message = None\<rparr>,
        pendingTimers = [],
        trace = [OnStatus ''Ejecutando...'', OnStep ''s'', ApplyOpCall (Start ''s''),
                 OnStep ''w'', ApplyOpCall (Wait 1000 ''w''), SetTimeout 1 1000,
                 ClearTimeout 1, ResolveSleep 1, OnStatus ''Detenido.''],
        nextTimerId = 2, ticks = 4\<rparr>"
  by code_simp

lemma run_repeatCrash:
  "runProgram (adapter (grid3 0 2)) neverStop repeatCrash (makeInitialState (grid3 0 2) 1)
     = \<lparr>running = False, stopped = False,
        state = \<lparr>levelId = 1, player = \<lparr>px = 0, py = 0, dir = N\<rparr>, status = status_error,
                 message = Some msgChoque\<rparr>,
        pendingTimers = [],
        trace = [OnStatus ''Ejecutando...'', OnStep ''s'', ApplyOpCall (Start ''s''),
                 OnStep ''r'', OnStep ''m'', ApplyOpCall (Move 3 ''m''),
                 OnError (Error ''CHOQUE'')],
        nextTimerId = 1, ticks = 3\<rparr>"
  by code_simp

lemma unroll_turnTwice:
  "unroll (ops turnTwice) = [OnStep ''s'', ApplyOpCall (Start ''s''),
                 OnStep ''r'', OnStep ''t'', ApplyOpCall (Turn Left ''t''), OnStep ''t'',
                 ApplyOpCall (Turn Left ''t'')]"
  by code_simp

lemma unroll_repeatCrash:
  "unroll (ops repeatCrash) = [OnStep ''s'', ApplyOpCall (Start ''s''),
                 OnStep ''r'', OnStep ''m'', ApplyOpCall (Move 3 ''m''), OnStep ''m'', ApplyOpCall (Move 3 ''m'')]"
  by code_simp

lemma repeat_turn:
  "runOps (adapter (grid3 0 2)) neverStop [Repeat (5 / 2) [Turn Left ''t''] ''r'']
      (startRuntime (adapter (grid3 0 2)) (makeInitialState (grid3 0 2) 1))
   = (Fulfilled,
      \<lparr>running = True, stopped = False,
        state = \<lparr>levelId = 1, player = \<lparr>px = 0, py = 2, dir = S\<rparr>, status = status_idle,
                 message = None\<rparr>,
        pendingTimers = [],
        trace = [OnStatus ''Ejecutando...'', OnStep ''r'', OnStep ''t'',
                 ApplyOpCall (Turn Left ''t''), OnStep ''t'', ApplyOpCall (Turn Left ''t'')],
        nextTimerId = 1, ticks = 4\<rparr>)"
  by code_simp

lemma run_walkLog:
  "prefix (walkLog (trace (runProgram A env P init))) (unroll (ops P))
   \<and> (\<not> stopped (runProgram A env P init)
        \<and> allReturned A (reset A init) (callsOf (trace (runProgram A env P init))) \<longrightarrow>
        walkLog (trace (runProgram A env P init)) = unroll (ops P))"
proof -
  obtain res rt1 where w: "runOps A env (ops P) (startRuntime A init) = (res, rt1)"
    by (cases "runOps A env (ops P) (startRuntime A init)") auto
  note f = run_facts[OF w]
  let ?rt2 = "suspend env rt1"
  show ?thesis
  proof (cases res)
    case Fulfilled
    show ?thesis
    proof (cases "stopped ?rt2")
      case True
      then have R: "runProgram A env P init = ?rt2\<lparr>running := False\<rparr>"
        using f(1) Fulfilled by (simp add: finish_Fulfilled)
      show ?thesis using True f(4) by (simp add: R)
    next
      case False
      then have R: "runProgram A env P init
          = ?rt2\<lparr>trace := trace ?rt2 @ [OnDone, OnStatus ''Finalizado.''], running := False\<rparr>"
        using f(1) Fulfilled by (simp add: finish_Fulfilled)
      from False have "\<not> stopped rt1" using stopped_suspend_mono by blast
      with f(5) Fulfilled have "walkLog (trace rt1) = unroll (ops P)" by simp
      then show ?thesis by (simp add: R)
    qed
  next
    case (Failed e)
    with f(2) have fa: "failedAt A (reset A init) e rt1" by simp
    have R: "runProgram A env P init = ?rt2\<lparr>trace := trace ?rt2 @ [OnError e], running := False\<rparr>"
      using f(1) Failed by (simp add: finish_Failed)
    have "\<not> allReturned A (reset A init) (callsOf (trace ?rt2))"
      using failedAt_not_allReturned[OF fa] by simp
    then show ?thesis using f(4) by (simp add: R)
  qed
qed

text \<open>
  Claim C3, as amended. Let the runtime reach a repeat op with no stop requested, and let
  the repeat end with no stop requested and no error raised by \<open>applyOp\<close>. Then the walk
  events of the repeat are its \<open>onStep\<close> followed by the whole sequence of the body,
  max(0, floor(times)) times over, in order; the loop of a repeat that runs to its end
  does so for any number of iterations. The stop flag is tested before every op (before
  the repeat and before each op of its body) and before every iteration: once it is set,
  the rest of the ops and the remaining iterations leave the runtime as it is.
\<close>

theorem repeat_runs_body:
  "(\<not> stopped rt \<and> runOps A env [Repeat t b i] rt = (Fulfilled, rt') \<and> \<not> stopped rt' \<longrightarrow>
      walkLog (trace rt')
        = walkLog (trace rt) @ OnStep i # concat (replicate (nat (max 0 \<lfloor>t\<rfloor>)) (unroll b)))
   \<and> (runRepeat A env b n rt = (Next, rt'') \<and> \<not> stopped rt'' \<longrightarrow>
        walkLog (trace rt'') = walkLog (trace rt) @ concat (replicate n (unroll b)))
   \<and> (stopped rt \<longrightarrow>
        runOps A env xs rt = (Fulfilled, rt) \<and> snd (runRepeat A env b n rt) = rt)"
proof -
  have a: "\<not> stopped rt \<and> runOps A env [Repeat t b i] rt = (Fulfilled, rt') \<and> \<not> stopped rt' \<longrightarrow>
      walkLog (trace rt')
        = walkLog (trace rt) @ OnStep i # concat (replicate (nat (max 0 \<lfloor>t\<rfloor>)) (unroll b))"
  proof (intro impI, elim conjE)
    assume r: "runOps A env [Repeat t b i] rt = (Fulfilled, rt')" and ns: "\<not> stopped rt'"
    from walk_log(1)[OF r] ns show "walkLog (trace rt')
        = walkLog (trace rt) @ OnStep i # concat (replicate (nat (max 0 \<lfloor>t\<rfloor>)) (unroll b))"
      by (simp add: unroll_Cons unrollOp_Repeat unroll_def del: unrollOp.simps)
  qed
  have b: "runRepeat A env b n rt = (Next, rt'') \<and> \<not> stopped rt'' \<longrightarrow>
        walkLog (trace rt'') = walkLog (trace rt) @ concat (replicate n (unroll b))"
    using walk_log(2)[of A env b n rt Next rt''] by blast
  show ?thesis using a b by (simp add: stopped_runOps stopped_runRepeat)
qed

theorem repeat_runs_body_witness:
  "\<not> stopped (startRuntime (adapter (grid3 0 2)) (makeInitialState (grid3 0 2) 1))
   \<and> runOps (adapter (grid3 0 2)) neverStop [Repeat (5 / 2) [Turn Left ''t''] ''r'']
        (startRuntime (adapter (grid3 0 2)) (makeInitialState (grid3 0 2) 1))
      = (Fulfilled,
         \<lparr>running = True, stopped = False,
          state = \<lparr>levelId = 1, player = \<lparr>px = 0, py = 2, dir = S\<rparr>, status = status_idle,
                   message = None\<rparr>,
          pendingTimers = [],
          trace = [OnStatus ''Ejecutando...'', OnStep ''r'', OnStep ''t'',
                   ApplyOpCall (Turn Left ''t''), OnStep ''t'', ApplyOpCall (Turn Left ''t'')],
          nextTimerId = 1, ticks = 4\<rparr>)
   \<and> walkLog [OnStatus ''Ejecutando...'', OnStep ''r'', OnStep ''t'',
               ApplyOpCall (Turn Left ''t''), OnStep ''t'', ApplyOpCall (Turn Left ''t'')]
      = walkLog (trace (startRuntime (adapter (grid3 0 2)) (makeInitialState (grid3 0 2) 1)))
         @ OnStep ''r'' # concat (replicate (nat (max 0 \<lfloor>5 / 2 :: rat\<rfloor>)) (unroll [Turn Left ''t'']))"
proof -
  let ?rt = "startRuntime (adapter (grid3 0 2)) (makeInitialState (grid3 0 2) 1)"
  let ?rt' = "\<lparr>running = True, stopped = False,
          state = \<lparr>levelId = 1, player = \<lparr>px = 0, py = 2, dir = S\<rparr>, status = status_idle,
                   message = None\<rparr>,
          pendingTimers = [],
          trace = [OnStatus ''Ejecutando...'', OnStep ''r'', OnStep ''t'',
                   ApplyOpCall (Turn Left ''t''), OnStep ''t'', ApplyOpCall (Turn Left ''t'')],
          nextTimerId = 1, ticks = 4\<rparr>"
  have a: "\<not> stopped ?rt" by (simp add: startRuntime_def initRuntime_def)
  have b: "runOps (adapter (grid3 0 2)) neverStop [Repeat (5 / 2) [Turn Left ''t''] ''r''] ?rt
           = (Fulfilled, ?rt')"
    by (rule repeat_turn)
  have c: "\<not> stopped ?rt'" by simp
  have "walkLog (trace ?rt') = walkLog (trace ?rt)
          @ OnStep ''r'' # concat (replicate (nat (max 0 \<lfloor>5 / 2 :: rat\<rfloor>)) (unroll [Turn Left ''t'']))"
    using repeat_runs_body[of ?rt "adapter (grid3 0 2)" neverStop "5 / 2" "[Turn Left ''t'']"
        "''r''" ?rt'] a b c by blast
  then have d: "walkLog [OnStatus ''Ejecutando...'', OnStep ''r'', OnStep ''t'',
               ApplyOpCall (Turn Left ''t''), OnStep ''t'', ApplyOpCall (Turn Left ''t'')]
      = walkLog (trace ?rt)
         @ OnStep ''r'' # concat (replicate (nat (max 0 \<lfloor>5 / 2 :: rat\<rfloor>)) (unroll [Turn Left ''t'']))"
    by simp
  show ?thesis using a b d by (intro conjI)
qed

text \<open>
  Claim C3 as stated fails when \<open>applyOp\<close> raises inside the body: with no stop
  requested, the repeat of two iterations of Move 3 from (0,2) facing north throws CHOQUE
  in the first iteration, so the body is entered once, not twice.
\<close>

theorem repeat_runs_body_counterexample:
  "\<not> stopped (runProgram (adapter (grid3 0 2)) neverStop repeatCrash (makeInitialState (grid3 0 2) 1))
   \<and> callsOf (trace (runProgram (adapter (grid3 0 2)) neverStop repeatCrash
        (makeInitialState (grid3 0 2) 1))) = [Start ''s'', Move 3 ''m'']
   \<and> walkLog (trace (runProgram (adapter (grid3 0 2)) neverStop repeatCrash
        (makeInitialState (grid3 0 2) 1)))
      \<noteq> OnStep ''s'' # ApplyOpCall (Start ''s'') # OnStep ''r''
          # concat (replicate (nat (max 0 \<lfloor>2 :: rat\<rfloor>)) (unroll [Move 3 ''m'']))"
  unfolding run_repeatCrash by code_simp

text \<open>
  Claim C4. Take any run, and let \<open>applyOp\<close> raise the error \<open>e\<close> when it is called for
  \<open>op\<close> after the calls \<open>c\<close>. Then this call is the last one of the run, and the last
  walk event: the walk ends at \<open>op\<close>. The error is passed to \<open>onError\<close>, which is the
  last event of the run and its only finish event: neither \<open>onDone\<close> nor the status
  "Finalizado." is emitted. The state is the one that the calls \<open>c\<close> and then the
  failing call left: what the earlier ops changed is kept.
\<close>

theorem error_ends_run:
  assumes calls: "callsOf (trace (runProgram A env P init)) = c @ op # c2"
      and r: "raised (applyOp A op (replay A (reset A init) c)) = Some e"
  shows "c2 = []
    \<and> last (trace (runProgram A env P init)) = OnError e
    \<and> finishLog (trace (runProgram A env P init)) = [OnError e]
    \<and> OnDone \<notin> set (trace (runProgram A env P init))
    \<and> OnStatus ''Finalizado.'' \<notin> set (trace (runProgram A env P init))
    \<and> (\<exists>l. walkLog (trace (runProgram A env P init)) = l @ [OnStep (blockId op), ApplyOpCall op])
    \<and> state (runProgram A env P init) = appliedState (applyOp A op (replay A (reset A init) c))
    \<and> \<not> isRunning (runProgram A env P init)"
proof -
  let ?s0 = "reset A init"
  obtain res rt1 where w: "runOps A env (ops P) (startRuntime A init) = (res, rt1)"
    by (cases "runOps A env (ops P) (startRuntime A init)") auto
  have R: "runProgram A env P init = finish env (res, rt1)"
    by (simp add: runProgram_eq w)
  from sound_walk[OF start_sound, of A init env "ops P"] w
  have post: "case res of Failed e \<Rightarrow> failedAt A ?s0 e rt1 | Fulfilled \<Rightarrow> sound A ?s0 rt1"
    by simp
  show ?thesis
  proof (cases res)
    case Fulfilled
    with post have "allReturned A ?s0 (callsOf (trace rt1))" by (simp add: sound_def)
    moreover have "callsOf (trace rt1) = c @ op # c2"
      using calls R Fulfilled by (simp add: finish_Fulfilled split: if_splits)
    ultimately have "raised (applyOp A op (replay A ?s0 c)) = None"
      using raised_in_returned by metis
    then show ?thesis using r by simp
  next
    case (Failed e')
    with post have f: "failedAt A ?s0 e' rt1" by simp
    then obtain c' op' l where
      c': "callsOf (trace rt1) = c' @ [op']" and all: "allReturned A ?s0 c'"
      and r': "raised (applyOp A op' (replay A ?s0 c')) = Some e'"
      and l: "walkLog (trace rt1) = l @ [OnStep (blockId op'), ApplyOpCall op']"
      by (auto simp add: failedAt_def)
    have "callsOf (trace rt1) = c @ op # c2"
      using calls R Failed by (simp add: finish_Failed)
    with c' have "c' @ [op'] = c @ op # c2" by simp
    from raising_call_is_last[OF all this r] have same: "c = c'" "op = op'" "c2 = []" by simp_all
    with r r' have e: "e' = e" by simp
    have st: "state rt1 = replay A ?s0 (c @ [op])" using f c' same by (simp add: failedAt_def)
    have fl: "finishLog (trace (runProgram A env P init)) = [OnError e]"
      using f R Failed e by (simp add: finish_Failed failedAt_def)
    show ?thesis using same e l st fl finishLog_only_error[OF fl] R Failed
      by (simp add: finish_Failed replay_snoc isRunning_def)
  qed
qed

theorem error_ends_run_witness:
  "callsOf (trace (runProgram (adapter (grid3 0 2)) neverStop scenario
      (makeInitialState (grid3 0 2) 1)))
     = [Start ''s'', Move 1 ''m1'', Turn Right ''t''] @ Move 1 ''m2'' # []
   \<and> raised (applyOp (adapter (grid3 0 2)) (Move 1 ''m2'')
        (replay (adapter (grid3 0 2))
           (reset (adapter (grid3 0 2)) (makeInitialState (grid3 0 2) 1))
           [Start ''s'', Move 1 ''m1'', Turn Right ''t'']))
       = Some (Error ''WIN'')
   \<and> last (trace (runProgram (adapter (grid3 0 2)) neverStop scenario
        (makeInitialState (grid3 0 2) 1))) = OnError (Error ''WIN'')
   \<and> OnDone \<notin> set (trace (runProgram (adapter (grid3 0 2)) neverStop scenario
        (makeInitialState (grid3 0 2) 1)))
   \<and> state (runProgram (adapter (grid3 0 2)) neverStop scenario (makeInitialState (grid3 0 2) 1))
       = appliedState (applyOp (adapter (grid3 0 2)) (Move 1 ''m2'')
           \<lparr>levelId = 1, player = \<lparr>px = 0, py = 1, dir = E\<rparr>, status = status_idle,
            message = None\<rparr>)"
proof -
  have a: "callsOf (trace (runProgram (adapter (grid3 0 2)) neverStop scenario
      (makeInitialState (grid3 0 2) 1)))
     = [Start ''s'', Move 1 ''m1'', Turn Right ''t''] @ Move 1 ''m2'' # []"
    by (simp add: run_scenario_0_2)
  have c: "replay (adapter (grid3 0 2))
           (reset (adapter (grid3 0 2)) (makeInitialState (grid3 0 2) 1))
           [Start ''s'', Move 1 ''m1'', Turn Right ''t'']
       = \<lparr>levelId = 1, player = \<lparr>px = 0, py = 1, dir = E\<rparr>, status = status_idle,
          message = None\<rparr>"
    by (simp add: adapter_def mazeReset_def maze_defs)
  have b: "raised (applyOp (adapter (grid3 0 2)) (Move 1 ''m2'')
        (replay (adapter (grid3 0 2))
           (reset (adapter (grid3 0 2)) (makeInitialState (grid3 0 2) 1))
           [Start ''s'', Move 1 ''m1'', Turn Right ''t'']))
       = Some (Error ''WIN'')"
    unfolding c by (simp add: adapter_def maze_defs)
  from error_ends_run[OF a b] a b show ?thesis unfolding c by blast
qed

text \<open>
  Claim C5. In every run, \<open>onDone\<close> is emitted exactly when the run was not stopped and
  every call of \<open>applyOp\<close> returned; the walk has then gone through the whole depth-first
  sequence of the program, and the run ends with \<open>onDone\<close> followed by the status
  "Finalizado.", its only finish events. The run is stopped exactly when the host called
  \<open>stop()\<close> during one of its suspensions; the status "Detenido." is then in the trace
  and \<open>onDone\<close> is not. Afterwards \<open>isRunning()\<close> is false, however the run ended.
\<close>

theorem done_iff_completed:
  "(OnDone \<in> set (trace (runProgram A env P init)) \<longleftrightarrow>
      \<not> stopped (runProgram A env P init)
      \<and> allReturned A (reset A init) (callsOf (trace (runProgram A env P init))))
   \<and> (OnDone \<in> set (trace (runProgram A env P init)) \<longrightarrow>
        walkLog (trace (runProgram A env P init)) = unroll (ops P)
        \<and> finishLog (trace (runProgram A env P init)) = [OnDone, OnStatus ''Finalizado.'']
        \<and> (\<exists>pre. trace (runProgram A env P init) = pre @ [OnDone, OnStatus ''Finalizado.'']))
   \<and> (stopped (runProgram A env P init) \<longleftrightarrow> (\<exists>k<ticks (runProgram A env P init). env k))
   \<and> (stopped (runProgram A env P init) \<longleftrightarrow>
        OnStatus ''Detenido.'' \<in> set (trace (runProgram A env P init)))
   \<and> (stopped (runProgram A env P init) \<longrightarrow> OnDone \<notin> set (trace (runProgram A env P init)))
   \<and> \<not> isRunning (runProgram A env P init)"
proof -
  let ?s0 = "reset A init"
  obtain res rt1 where w: "runOps A env (ops P) (startRuntime A init) = (res, rt1)"
    by (cases "runOps A env (ops P) (startRuntime A init)") auto
  note f = run_facts[OF w]
  let ?rt2 = "suspend env rt1"
  have inv: "stopped ?rt2 = (\<exists>k<ticks ?rt2. env k)"
            "stopped ?rt2 = (OnStatus ''Detenido.'' \<in> set (trace ?rt2))"
    using f(3) unfolding stopInv_def by blast+
  show ?thesis
  proof (cases res)
    case Fulfilled
    with f(2) have s: "sound A ?s0 rt1" by simp
    then have nofin: "finishLog (trace ?rt2) = []" and all: "allReturned A ?s0 (callsOf (trace ?rt2))"
      by (simp_all add: sound_def)
    from nofin have nd: "OnDone \<notin> set (trace ?rt2)"
      by (auto simp add: finishLog_def filter_empty_conv isFinishEvent_def)
    show ?thesis
    proof (cases "stopped ?rt2")
      case True
      then have R: "runProgram A env P init = ?rt2\<lparr>running := False\<rparr>"
        using f(1) Fulfilled by (simp add: finish_Fulfilled)
      show ?thesis using True nd inv by (simp add: R isRunning_def)
    next
      case False
      then have R: "runProgram A env P init
          = ?rt2\<lparr>trace := trace ?rt2 @ [OnDone, OnStatus ''Finalizado.''], running := False\<rparr>"
        using f(1) Fulfilled by (simp add: finish_Fulfilled)
      from False have "\<not> stopped rt1" using stopped_suspend_mono by blast
      with f(5) Fulfilled have "walkLog (trace rt1) = unroll (ops P)" by simp
      then show ?thesis using False all nofin inv by (simp add: R isRunning_def)
    qed
  next
    case (Failed e)
    with f(2) have fa: "failedAt A ?s0 e rt1" by simp
    then have nofin: "finishLog (trace ?rt2) = []" by (simp add: failedAt_def)
    then have nd: "OnDone \<notin> set (trace ?rt2)"
      by (auto simp add: finishLog_def filter_empty_conv isFinishEvent_def)
    have R: "runProgram A env P init = ?rt2\<lparr>trace := trace ?rt2 @ [OnError e], running := False\<rparr>"
      using f(1) Failed by (simp add: finish_Failed)
    have "\<not> allReturned A ?s0 (callsOf (trace ?rt2))"
      using failedAt_not_allReturned[OF fa] by simp
    then show ?thesis using nd inv by (simp add: R isRunning_def)
  qed
qed

theorem done_iff_completed_witness:
  "OnDone \<in> set (trace (runProgram (adapter (grid3 0 2)) neverStop turnTwice
      (makeInitialState (grid3 0 2) 1)))
   \<and> walkLog (trace (runProgram (adapter (grid3 0 2)) neverStop turnTwice
        (makeInitialState (grid3 0 2) 1))) = unroll (ops turnTwice)
   \<and> stopped (runProgram (adapter (grid3 0 2)) (stopAt 2) waitThenMove
        (makeInitialState (grid3 0 2) 1))
   \<and> OnDone \<notin> set (trace (runProgram (adapter (grid3 0 2)) (stopAt 2) waitThenMove
        (makeInitialState (grid3 0 2) 1)))"
proof -
  have a: "OnDone \<in> set (trace (runProgram (adapter (grid3 0 2)) neverStop turnTwice
      (makeInitialState (grid3 0 2) 1)))"
    by (simp add: run_turnTwice)
  have b: "stopped (runProgram (adapter (grid3 0 2)) (stopAt 2) waitThenMove
        (makeInitialState (grid3 0 2) 1))"
    by (simp add: run_waitThenMove)
  from done_iff_completed[of "adapter (grid3 0 2)" neverStop turnTwice "makeInitialState (grid3 0 2) 1"]
       done_iff_completed[of "adapter (grid3 0 2)" "stopAt 2" waitThenMove "makeInitialState (grid3 0 2) 1"]
       a b
  show ?thesis by blast
qed

text \<open>
  Claim C6. Let the host call \<open>stop()\<close> while the run is running and the walk is
  suspended in the sleep of a wait op. Then \<open>stop()\<close> clears the timeout of every pending
  timer, that of the sleep included, and resolves it, in the call itself: no timer
  callback runs, and no timer is left pending. The walk goes on without calling \<open>onStep\<close> or
  \<open>applyOp\<close> again: the rest of the ops and the remaining iterations of a repeat
  leave the runtime as it is, and the end of the run adds no event. In every run, no walk
  event and no \<open>onDone\<close> comes after the status "Detenido.", and a run with that status
  has no \<open>onDone\<close> at all. A call of \<open>stop()\<close> when the run is not running changes
  nothing and emits nothing.
\<close>

theorem stop_cancels_wait:
  "(running rt \<and> env (ticks rt) \<longrightarrow>
      awaitSleep env m rt
        = rt\<lparr>running := False, stopped := True, pendingTimers := [],
             trace := trace rt @ SetTimeout (nextTimerId rt) m
                        # stopEvents (pendingTimers rt @ [nextTimerId rt]),
             nextTimerId := nextTimerId rt + 1, ticks := ticks rt + 1\<rparr>
      \<and> runOps A env rest (awaitSleep env m rt) = (Fulfilled, awaitSleep env m rt)
      \<and> snd (runRepeat A env b n (awaitSleep env m rt)) = awaitSleep env m rt
      \<and> finish env (Fulfilled, awaitSleep env m rt)
          = (awaitSleep env m rt)\<lparr>ticks := ticks rt + 2\<rparr>)
   \<and> walkLog (afterStop (trace (runProgram A env P init))) = []
   \<and> OnDone \<notin> set (afterStop (trace (runProgram A env P init)))
   \<and> (OnStatus ''Detenido.'' \<in> set (trace (runProgram A env P init)) \<longrightarrow>
        OnDone \<notin> set (trace (runProgram A env P init)))
   \<and> (\<not> running rt \<longrightarrow> stop rt = rt)"
proof -
  have a: "running rt \<and> env (ticks rt) \<longrightarrow>
      awaitSleep env m rt
        = rt\<lparr>running := False, stopped := True, pendingTimers := [],
             trace := trace rt @ SetTimeout (nextTimerId rt) m
                        # stopEvents (pendingTimers rt @ [nextTimerId rt]),
             nextTimerId := nextTimerId rt + 1, ticks := ticks rt + 1\<rparr>"
    by (simp add: awaitSleep_eq)
  then have st: "running rt \<and> env (ticks rt) \<longrightarrow>
      stopped (awaitSleep env m rt) \<and> \<not> running (awaitSleep env m rt)
      \<and> ticks (awaitSleep env m rt) = ticks rt + 1"
    by auto
  have b: "running rt \<and> env (ticks rt) \<longrightarrow>
      runOps A env rest (awaitSleep env m rt) = (Fulfilled, awaitSleep env m rt)
      \<and> snd (runRepeat A env b n (awaitSleep env m rt)) = awaitSleep env m rt"
    using st by (simp add: stopped_runOps stopped_runRepeat)
  have c: "running rt \<and> env (ticks rt) \<longrightarrow>
      finish env (Fulfilled, awaitSleep env m rt) = (awaitSleep env m rt)\<lparr>ticks := ticks rt + 2\<rparr>"
    using st by (auto simp add: finish_Fulfilled suspend_eq)
  show ?thesis using a b c run_afterStop[of A env P init] by (simp add: stop_def)
qed

theorem stop_cancels_wait_witness:
  "running sleeping \<and> stopAt 2 (ticks sleeping)
   \<and> awaitSleep (stopAt 2) 1000 sleeping
      = sleeping\<lparr>running := False, stopped := True, pendingTimers := [],
             trace := trace sleeping
                @ [SetTimeout 1 1000, ClearTimeout 1, ResolveSleep 1, OnStatus ''Detenido.''],
             nextTimerId := 2, ticks := 3\<rparr>
   \<and> runOps (adapter (grid3 0 2)) (stopAt 2) [Move 1 ''m''] (awaitSleep (stopAt 2) 1000 sleeping)
      = (Fulfilled, awaitSleep (stopAt 2) 1000 sleeping)
   \<and> stop (awaitSleep (stopAt 2) 1000 sleeping) = awaitSleep (stopAt 2) 1000 sleeping"
proof -
  have a: "running sleeping \<and> stopAt 2 (ticks sleeping)"
    by (simp add: sleeping_def stopAt_def)
  have b: "\<not> running (awaitSleep (stopAt 2) 1000 sleeping)"
    using a by (simp add: awaitSleep_eq)
  from stop_cancels_wait[of sleeping "stopAt 2" 1000 "adapter (grid3 0 2)" "[Move 1 ''m'']"] a
       stop_cancels_wait[of "awaitSleep (stopAt 2) 1000 sleeping" "stopAt 2"] b
  show ?thesis by (simp add: sleeping_def stopEvents_def)
qed

lemma callsOf_walkLog: "callsOf (walkLog tr) = callsOf tr"
  by (induction tr rule: callsOf.induct) (simp_all add: walkLog_def isWalkEvent_def)

lemma prefix_callsOf:
  assumes "prefix (walkLog tr) u"
  shows "prefix (callsOf tr) (callsOf u)"
proof -
  from assms obtain ys where "u = walkLog tr @ ys" by (auto simp add: prefix_def)
  then have "callsOf u = callsOf tr @ callsOf ys" by (simp add: callsOf_walkLog)
  then show ?thesis by simp
qed

lemma run_state:
  "state (runProgram A env P init) = replay A (reset A init) (callsOf (trace (runProgram A env P init)))"
proof -
  obtain res rt1 where w: "runOps A env (ops P) (startRuntime A init) = (res, rt1)"
    by (cases "runOps A env (ops P) (startRuntime A init)") auto
  note f = run_facts[OF w]
  have st: "state rt1 = replay A (reset A init) (callsOf (trace rt1))"
    using f(2) by (cases res) (simp_all add: sound_def failedAt_def)
  show ?thesis
  proof (cases res)
    case Fulfilled
    then show ?thesis using f(1) st by (simp add: finish_Fulfilled)
  next
    case (Failed e)
    then show ?thesis using f(1) st by (simp add: finish_Failed)
  qed
qed

text \<open>
  Claim C7. In every run the walk events (the calls of \<open>onStep\<close> and of \<open>applyOp\<close>, in
  the order they were made) are an initial part of the depth-first sequence of the
  program, every repeat unrolled; they are the whole sequence when the run was not stopped
  and every call of \<open>applyOp\<close> returned. In that sequence, and so in the walk events of
  the run, every call of \<open>applyOp\<close> comes directly after the one \<open>onStep\<close> call for the
  block of its op. The ops are applied to the state in that order: the ops that \<open>applyOp\<close>
  was called with are an initial part of the ops of the depth-first sequence (all of them
  when the run was not stopped and every call returned), each call was made on the state
  that the calls before it left, starting from the reset state, and the state of the run
  is the state that these calls left.
\<close>

theorem walk_is_depth_first:
  "prefix (walkLog (trace (runProgram A env P init))) (unroll (ops P))
   \<and> (\<not> stopped (runProgram A env P init)
        \<and> allReturned A (reset A init) (callsOf (trace (runProgram A env P init))) \<longrightarrow>
        walkLog (trace (runProgram A env P init)) = unroll (ops P))
   \<and> announced (unroll (ops P))
   \<and> announced (walkLog (trace (runProgram A env P init)))
   \<and> prefix (callsOf (trace (runProgram A env P init))) (callsOf (unroll (ops P)))
   \<and> (\<not> stopped (runProgram A env P init)
        \<and> allReturned A (reset A init) (callsOf (trace (runProgram A env P init))) \<longrightarrow>
        callsOf (trace (runProgram A env P init)) = callsOf (unroll (ops P))
        \<and> state (runProgram A env P init) = replay A (reset A init) (callsOf (unroll (ops P))))
   \<and> state (runProgram A env P init)
        = replay A (reset A init) (callsOf (trace (runProgram A env P init)))"
proof -
  note a = run_walkLog[of A env P init]
  then obtain ys where "unroll (ops P) = walkLog (trace (runProgram A env P init)) @ ys"
    by (auto simp add: prefix_def)
  then have b: "announced (walkLog (trace (runProgram A env P init)))"
    using announced_unroll[of "ops P"] announced_prefix by metis
  have c: "prefix (callsOf (trace (runProgram A env P init))) (callsOf (unroll (ops P)))"
    using a prefix_callsOf by blast
  note d = run_state[of A env P init]
  have e: "\<not> stopped (runProgram A env P init)
        \<and> allReturned A (reset A init) (callsOf (trace (runProgram A env P init))) \<longrightarrow>
        callsOf (trace (runProgram A env P init)) = callsOf (unroll (ops P))
        \<and> state (runProgram A env P init) = replay A (reset A init) (callsOf (unroll (ops P)))"
  proof (intro impI)
    assume "\<not> stopped (runProgram A env P init)
        \<and> allReturned A (reset A init) (callsOf (trace (runProgram A env P init)))"
    with a have "walkLog (trace (runProgram A env P init)) = unroll (ops P)" by blast
    then have "callsOf (trace (runProgram A env P init)) = callsOf (unroll (ops P))"
      using callsOf_walkLog[of "trace (runProgram A env P init)"] by simp
    with d show "callsOf (trace (runProgram A env P init)) = callsOf (unroll (ops P))
        \<and> state (runProgram A env P init) = replay A (reset A init) (callsOf (unroll (ops P)))"
      by simp
  qed
  show ?thesis using a b c d e announced_unroll by blast
qed

theorem walk_is_depth_first_witness:
  "\<not> stopped (runProgram (adapter (grid3 0 2)) neverStop turnTwice (makeInitialState (grid3 0 2) 1))
   \<and> allReturned (adapter (grid3 0 2))
        (reset (adapter (grid3 0 2)) (makeInitialState (grid3 0 2) 1))
        (callsOf (trace (runProgram (adapter (grid3 0 2)) neverStop turnTwice
           (makeInitialState (grid3 0 2) 1))))
   \<and> walkLog (trace (runProgram (adapter (grid3 0 2)) neverStop turnTwice
        (makeInitialState (grid3 0 2) 1)))
       = [OnStep ''s'', ApplyOpCall (Start ''s''), OnStep ''r'', OnStep ''t'',
          ApplyOpCall (Turn Left ''t''), OnStep ''t'', ApplyOpCall (Turn Left ''t'')]
   \<and> callsOf (trace (runProgram (adapter (grid3 0 2)) neverStop turnTwice
        (makeInitialState (grid3 0 2) 1)))
       = [Start ''s'', Turn Left ''t'', Turn Left ''t'']
   \<and> state (runProgram (adapter (grid3 0 2)) neverStop turnTwice (makeInitialState (grid3 0 2) 1))
       = replay (adapter (grid3 0 2))
           (reset (adapter (grid3 0 2)) (makeInitialState (grid3 0 2) 1))
           [Start ''s'', Turn Left ''t'', Turn Left ''t'']
   \<and> replay (adapter (grid3 0 2))
        (reset (adapter (grid3 0 2)) (makeInitialState (grid3 0 2) 1))
        [Start ''s'', Turn Left ''t'', Turn Left ''t'']
       = \<lparr>levelId = 1, player = \<lparr>px = 0, py = 2, dir = S\<rparr>, status = status_idle,
          message = None\<rparr>"
proof -
  have a: "\<not> stopped (runProgram (adapter (grid3 0 2)) neverStop turnTwice
      (makeInitialState (grid3 0 2) 1))"
    by (simp add: run_turnTwice)
  have b: "allReturned (adapter (grid3 0 2))
        (reset (adapter (grid3 0 2)) (makeInitialState (grid3 0 2) 1))
        (callsOf (trace (runProgram (adapter (grid3 0 2)) neverStop turnTwice
           (makeInitialState (grid3 0 2) 1))))"
    unfolding run_turnTwice by code_simp
  have r: "replay (adapter (grid3 0 2))
        (reset (adapter (grid3 0 2)) (makeInitialState (grid3 0 2) 1))
        [Start ''s'', Turn Left ''t'', Turn Left ''t'']
       = \<lparr>levelId = 1, player = \<lparr>px = 0, py = 2, dir = S\<rparr>, status = status_idle,
          message = None\<rparr>"
    by code_simp
  from walk_is_depth_first[of "adapter (grid3 0 2)" neverStop turnTwice
      "makeInitialState (grid3 0 2) 1"] a b
  have "walkLog (trace (runProgram (adapter (grid3 0 2)) neverStop turnTwice
          (makeInitialState (grid3 0 2) 1))) = unroll (ops turnTwice)
      \<and> callsOf (trace (runProgram (adapter (grid3 0 2)) neverStop turnTwice
          (makeInitialState (grid3 0 2) 1))) = callsOf (unroll (ops turnTwice))
      \<and> state (runProgram (adapter (grid3 0 2)) neverStop turnTwice
          (makeInitialState (grid3 0 2) 1))
         = replay (adapter (grid3 0 2))
             (reset (adapter (grid3 0 2)) (makeInitialState (grid3 0 2) 1))
             (callsOf (unroll (ops turnTwice)))"
    by blast
  then show ?thesis using a b r by (simp add: unroll_turnTwice)
qed

end
